theory Spec2Isabelle
  imports Complex_Main "HOL-Library.AList"
begin

section \<open>The AudioProcessor component of VoxBridge\<close>

text \<open>
  A shallow embedding of \<^verbatim>\<open>src/components/AudioProcessor.tsx\<close>. The component keeps
  three pieces of mutable state (\<^verbatim>\<open>audioContextRef\<close>, \<^verbatim>\<open>audioProcessorsRef\<close>,
  \<^verbatim>\<open>debugInfo\<close>) and drives the browser's Web Audio graph. The graph is the browser's,
  so it is a component of the state here: which contexts exist and which are closed, which
  nodes were created, how they are connected and which \<^verbatim>\<open>onaudioprocess\<close> closure each
  processor node carries.

  A finite JavaScript number is the rational number it denotes, and every operation of the
  loudness computation is the exact operation followed by rounding to binary64, as IEEE 754
  prescribes; the samples are the binary32 values a \<^verbatim>\<open>Float32Array\<close> holds.
  \<^verbatim>\<open>Date.now()\<close> is an \<open>int\<close>, a count of milliseconds.
\<close>

subsection \<open>Data\<close>

type_synonym MediaStream = nat

text \<open>The participant object of the SDK, with the fields the component reads.\<close>

record participant =
  name :: string
  sessionId :: string
  audioStream :: "MediaStream option"
  isSpeaking :: bool
  audioLevel :: real
  publishedTracks :: "nat list"

text \<open>
  Every message passed to \<^verbatim>\<open>addDebugLog\<close> is one of ten template literals; a
  constructor stands for the template and carries the interpolated values.
\<close>

datatype message =
    AudioContext_created
  | Local_participant_audio_detected
  | Set_up_audio_processing_for string
  | AudioContext_cleaned_up
  | Checking_participant string
  | Is_Speaking bool
  | Audio_Level real
  | Published_Tracks "nat list"
  | Setting_up_audio_processing_for string
  | No_audio_available_for string

text \<open>The calls in the \<^verbatim>\<open>try\<close> block that the browser may answer with an exception.\<close>

datatype build_step =
    CreateMediaStreamSource
  | CreateAnalyser
  | CreateScriptProcessor
  | ConnectSourceToAnalyser
  | ConnectAnalyserToProcessor
  | ConnectProcessorToDestination
  | AllocateDataArray

datatype error = DOMException build_step

text \<open>The object logged by \<^verbatim>\<open>console.log\<close> when a chain is loud.\<close>

record diagnostic =
  d_type :: string
  d_participant :: string
  d_sessionId :: string
  d_rmsLevel :: int
  d_timestamp :: string

datatype console_entry =
    ConsoleLog message
  | ConsoleLogObject diagnostic
  | ConsoleError error

text \<open>
  The closure assigned to \<^verbatim>\<open>processorNode.onaudioprocess\<close>: the variables it
  captures. \<open>lastLogTime\<close> is the only one it assigns.
\<close>

record monitor =
  m_isLocal :: bool
  m_participantName :: string
  m_sessionId :: string
  m_analyserNode :: nat
  lastLogTime :: int

datatype node_kind =
    MediaStreamAudioSourceNode MediaStream
  | AnalyserNode nat
  | ScriptProcessorNode nat nat nat

datatype endpoint = Node nat | Destination nat

text \<open>
  The browser's audio state. A context is its index in \<open>contexts\<close>, where \<open>True\<close> says
  that it has been closed; a node is its index in \<open>nodes\<close>, which records the context
  that created it and its kind; \<open>edges\<close> are the connections made by \<^verbatim>\<open>connect\<close>.
\<close>

record audio_host =
  contexts :: "bool list"
  nodes :: "(nat \<times> node_kind) list"
  edges :: "(nat \<times> endpoint) list"
  handlers :: "nat \<rightharpoonup> monitor"

text \<open>The value stored in the registry \<^verbatim>\<open>audioProcessorsRef\<close>.\<close>

record chain =
  sourceNode :: nat
  processorNode :: nat
  analyserNode :: nat

text \<open>
  The component. \<open>clock\<close> and \<open>ticks\<close> stand for \<^verbatim>\<open>new Date().toLocaleTimeString()\<close>:
  the \<open>k\<close>-th reading of the wall clock returns \<open>clock k\<close>. The registry is a JavaScript
  \<^verbatim>\<open>Map\<close>, which iterates in insertion order: an association list.
\<close>

record component =
  host :: audio_host
  audioContextRef :: "nat option"
  audioProcessorsRef :: "(string \<times> chain) list"
  debugInfo :: "(string \<times> message) list"
  console :: "console_entry list"
  clock :: "nat \<Rightarrow> string"
  ticks :: nat

subsection \<open>The debug log\<close>

text \<open>\<^verbatim>\<open>prev.slice(-n)\<close> for a positive \<open>n\<close>: the last \<open>n\<close> elements.\<close>

definition slice_last :: "nat \<Rightarrow> 'a list \<Rightarrow> 'a list" where
  "slice_last n xs = drop (length xs - n) xs"

definition addDebugLog :: "message \<Rightarrow> component \<Rightarrow> component" where
  "addDebugLog msg st =
     st\<lparr>console := console st @ [ConsoleLog msg],
        debugInfo := slice_last 20 (debugInfo st) @ [(clock st (ticks st), msg)],
        ticks := Suc (ticks st)\<rparr>"

subsection \<open>The Web Audio calls\<close>

definition newAudioContext :: "audio_host \<Rightarrow> nat \<times> audio_host" where
  "newAudioContext h = (length (contexts h), h\<lparr>contexts := contexts h @ [False]\<rparr>)"

definition closeContext :: "nat \<Rightarrow> audio_host \<Rightarrow> audio_host" where
  "closeContext c h = h\<lparr>contexts := (contexts h)[c := True]\<rparr>"

definition createNode :: "nat \<Rightarrow> node_kind \<Rightarrow> audio_host \<Rightarrow> nat \<times> audio_host" where
  "createNode c k h = (length (nodes h), h\<lparr>nodes := nodes h @ [(c, k)]\<rparr>)"

definition connect :: "nat \<Rightarrow> endpoint \<Rightarrow> audio_host \<Rightarrow> audio_host" where
  "connect n e h = h\<lparr>edges := edges h @ [(n, e)]\<rparr>"

text \<open>\<^verbatim>\<open>node.disconnect()\<close> without argument removes every outgoing connection.\<close>

definition disconnect :: "nat \<Rightarrow> audio_host \<Rightarrow> audio_host" where
  "disconnect n h = h\<lparr>edges := filter (\<lambda>(a, b). a \<noteq> n) (edges h)\<rparr>"

subsection \<open>Binary floating-point arithmetic\<close>

text \<open>The number of binary digits of a positive integer.\<close>

function bit_length :: "int \<Rightarrow> int" where
  "bit_length a = (if a \<le> 0 then 0 else 1 + bit_length (a div 2))"
  by pat_completeness auto
termination
  by (relation "measure nat") auto

declare bit_length.simps [simp del]

text \<open>
  For a positive rational \<open>x\<close>, the integer \<open>k\<close> with \<open>2 powi k \<le> x < 2 powi (k + 1)\<close>
  (\<open>ilog2_bounds\<close>).
\<close>

definition ilog2 :: "rat \<Rightarrow> int" where
  "ilog2 x =
     (case quotient_of x of (a, b) \<Rightarrow>
        let d = bit_length a - bit_length b
        in if 2 powi d \<le> x then d else d - 1)"

text \<open>The nearest integer, the even one of the two when \<open>y\<close> lies half way.\<close>

definition round_half_even :: "rat \<Rightarrow> int" where
  "round_half_even y =
     (let f = \<lfloor>y\<rfloor>; r = y - of_int f
      in if r < 1 / 2 then f else if r > 1 / 2 then f + 1 else if even f then f else f + 1)"

text \<open>
  Rounding to the nearest number with \<open>p\<close> significant binary digits and exponents from
  \<open>emin\<close> upwards, ties to even: the default rounding of IEEE 754. Binary64 has 53 digits
  and its smallest positive number is \<open>2 powi - 1074\<close>; binary32 has 24 digits and
  \<open>2 powi - 149\<close>. Overflow to \<^verbatim>\<open>Infinity\<close> is left out: the sum of the squares of
  fewer than \<open>2 ^ 768\<close> binary32 samples stays below \<open>2 ^ 1024\<close>.
\<close>

definition round_to :: "nat \<Rightarrow> int \<Rightarrow> rat \<Rightarrow> rat" where
  "round_to p emin x =
     (if x = 0 then 0
      else let e = max (ilog2 \<bar>x\<bar> - (int p - 1)) emin
           in of_int (round_half_even (x / 2 powi e)) * 2 powi e)"

definition round64 :: "rat \<Rightarrow> rat" where
  "round64 = round_to 53 (- 1074)"

definition round32 :: "rat \<Rightarrow> rat" where
  "round32 = round_to 24 (- 149)"

text \<open>What a \<^verbatim>\<open>Float32Array\<close> can hold, infinities and \<^verbatim>\<open>NaN\<close> apart.\<close>

definition is_float32 :: "rat \<Rightarrow> bool" where
  "is_float32 x \<longleftrightarrow> round32 x = x \<and> \<bar>x\<bar> < 2 ^ 128"

text \<open>The integer square root, two binary digits at a time (\<open>isqrt_bounds\<close>).\<close>

function isqrt :: "int \<Rightarrow> int" where
  "isqrt n =
     (if n \<le> 0 then 0
      else let r = 2 * isqrt (n div 4) in if (r + 1) * (r + 1) \<le> n then r + 1 else r)"
  by pat_completeness auto
termination
  by (relation "measure nat") auto

declare isqrt.simps [simp del]

text \<open>
  \<^verbatim>\<open>Math.sqrt\<close>: the binary64 number nearest to the square root. With
  \<open>e = ilog2 x div 2 - 52\<close> the root is \<open>q * 2 powi e\<close> for a real \<open>q\<close> from \<open>2 ^ 52\<close>
  up to \<open>2 ^ 53\<close>; the integer part of \<open>q\<close> is the integer root of \<open>\<lfloor>x / 4 powi e\<rfloor>\<close>, and
  it is rounded up when \<open>x / 4 powi e\<close> lies above the square of that integer plus a half.
\<close>

definition sqrt64 :: "rat \<Rightarrow> rat" where
  "sqrt64 x =
     (if x \<le> 0 then 0
      else let e = ilog2 x div 2 - 52;
               y = x / 4 powi e;
               q = isqrt \<lfloor>y\<rfloor>;
               h = (of_int q + 1 / 2) * (of_int q + 1 / 2)
           in of_int (if y > h \<or> (y = h \<and> odd q) then q + 1 else q) * 2 powi e)"

subsection \<open>The loudness monitor\<close>

definition LOG_INTERVAL :: int where
  "LOG_INTERVAL = 500"

text \<open>
  \<^verbatim>\<open>Math.sqrt(dataArray.reduce((acc, val) => acc + val * val, 0) / dataArray.length)\<close>
  as the code evaluates it: each product, each sum, the quotient and the root are rounded
  to binary64. On an empty array the quotient is \<^verbatim>\<open>0 / 0\<close>, which is \<^verbatim>\<open>NaN\<close>:
  \<open>None\<close>.
\<close>

definition rms64 :: "rat list \<Rightarrow> rat option" where
  "rms64 dataArray =
     (if length dataArray = 0 then None
      else Some (sqrt64 (round64 (foldl (\<lambda>acc val. round64 (acc + round64 (val * val))) 0 dataArray
                                   / of_nat (length dataArray)))))"


text \<open>
  \<^verbatim>\<open>rms > 0.01\<close>. The literal \<^verbatim>\<open>0.01\<close> is the binary64 number nearest to \<open>1/100\<close>,
  which is \<open>5764607523034235 / 2\<^sup>5\<^sup>9\<close> (\<open>literal_hundredth\<close>); every comparison with
  \<^verbatim>\<open>NaN\<close> is false.
\<close>

definition above_threshold :: "rat option \<Rightarrow> bool" where
  "above_threshold r = (case r of None \<Rightarrow> False | Some v \<Rightarrow> v > round64 (1 / 100))"

text \<open>
  \<^verbatim>\<open>rms.toFixed(4)\<close> prints the integer \<open>n\<close> for which \<open>n / 10\<^sup>4\<close> is nearest to the
  value, the larger one on a tie; the model keeps \<open>n\<close>, the number of ten-thousandths.
\<close>

definition toFixed4 :: "rat \<Rightarrow> int" where
  "toFixed4 v = \<lfloor>v * 10000 + 1 / 2\<rfloor>"

text \<open>
  The body of the handler, on the closure \<open>m\<close>: \<open>dataArray\<close> is the buffer as
  \<^verbatim>\<open>getFloatTimeDomainData\<close> filled it (binary32 samples, of any number), \<open>now\<close> what \<^verbatim>\<open>Date.now()\<close> returned and
  \<open>stamp\<close> the time string. The result is the closure after the call and the object
  logged, if any.
\<close>

definition onaudioprocess :: "monitor \<Rightarrow> rat list \<Rightarrow> int \<Rightarrow> string \<Rightarrow> monitor \<times> diagnostic option" where
  "onaudioprocess m dataArray now stamp =
     (let r = rms64 dataArray in
      if above_threshold r \<and> now - lastLogTime m > LOG_INTERVAL then
        (m\<lparr>lastLogTime := now\<rparr>,
         Some \<lparr>d_type = (if m_isLocal m then ''Local Audio'' else ''Remote Audio''),
               d_participant = m_participantName m,
               d_sessionId = m_sessionId m,
               d_rmsLevel = toFixed4 (the r),
               d_timestamp = stamp\<rparr>)
      else (m, None))"

text \<open>
  The successive invocations of one chain: the objects logged, each with the value of
  \<^verbatim>\<open>Date.now()\<close> at which it was logged, and the closure at the end.
\<close>

fun invocations :: "monitor \<Rightarrow> (rat list \<times> int \<times> string) list \<Rightarrow> (int \<times> diagnostic) list \<times> monitor" where
  "invocations m [] = ([], m)"
| "invocations m ((dataArray, now, stamp) # rest) =
     (case onaudioprocess m dataArray now stamp of
        (m', None) \<Rightarrow> invocations m' rest
      | (m', Some d) \<Rightarrow> (case invocations m' rest of (ds, m'') \<Rightarrow> ((now, d) # ds, m'')))"

text \<open>
  The browser delivering one \<^verbatim>\<open>audioprocess\<close> event to node \<open>p\<close>. A closed context
  renders no audio and delivers no event; a node without handler ignores it.
\<close>

definition audioprocess :: "nat \<Rightarrow> rat list \<Rightarrow> int \<Rightarrow> component \<Rightarrow> component" where
  "audioprocess p dataArray now st =
     (let h = host st in
      if p < length (nodes h) \<and> fst (nodes h ! p) < length (contexts h)
         \<and> \<not> contexts h ! fst (nodes h ! p) then
        (case handlers h p of
           None \<Rightarrow> st
         | Some m \<Rightarrow>
             (case onaudioprocess m dataArray now (clock st (ticks st)) of
                (m', None) \<Rightarrow> st\<lparr>host := h\<lparr>handlers := (handlers h)(p \<mapsto> m')\<rparr>\<rparr>
              | (m', Some d) \<Rightarrow>
                  st\<lparr>host := h\<lparr>handlers := (handlers h)(p \<mapsto> m')\<rparr>,
                     console := console st @ [ConsoleLogObject d],
                     ticks := Suc (ticks st)\<rparr>))
      else st)"

subsection \<open>Attaching a chain\<close>

text \<open>
  The node construction and wiring of the \<^verbatim>\<open>try\<close> block. \<open>throws\<close> says which calls
  the browser answers with an exception. What was created and connected before the
  exception stays, so the graph is returned in both cases.
\<close>

definition build_chain :: "(build_step \<Rightarrow> bool) \<Rightarrow> nat \<Rightarrow> MediaStream \<Rightarrow> audio_host \<Rightarrow> audio_host \<times> (error + chain)" where
  "build_chain throws c stream h0 =
     (if throws CreateMediaStreamSource then (h0, Inl (DOMException CreateMediaStreamSource))
      else let (source, h1) = createNode c (MediaStreamAudioSourceNode stream) h0 in
      if throws CreateAnalyser then (h1, Inl (DOMException CreateAnalyser))
      else let (analyser, h2) = createNode c (AnalyserNode 2048) h1 in
      if throws CreateScriptProcessor then (h2, Inl (DOMException CreateScriptProcessor))
      else let (processor, h3) = createNode c (ScriptProcessorNode 2048 1 1) h2 in
      if throws ConnectSourceToAnalyser then (h3, Inl (DOMException ConnectSourceToAnalyser))
      else let h4 = connect source (Node analyser) h3 in
      if throws ConnectAnalyserToProcessor then (h4, Inl (DOMException ConnectAnalyserToProcessor))
      else let h5 = connect analyser (Node processor) h4 in
      if throws ConnectProcessorToDestination then (h5, Inl (DOMException ConnectProcessorToDestination))
      else let h6 = connect processor (Destination c) h5 in
      if throws AllocateDataArray then (h6, Inl (DOMException AllocateDataArray))
      else (h6, Inr \<lparr>sourceNode = source, processorNode = processor, analyserNode = analyser\<rparr>))"

definition processAudioStream :: "(build_step \<Rightarrow> bool) \<Rightarrow> MediaStream \<Rightarrow> string \<Rightarrow> string \<Rightarrow> bool \<Rightarrow> component \<Rightarrow> component" where
  "processAudioStream throws stream sid participantName isLocal st =
     (case audioContextRef st of
        None \<Rightarrow> st
      | Some audioContext \<Rightarrow>
          (case build_chain throws audioContext stream (host st) of
             (h, Inl e) \<Rightarrow> st\<lparr>host := h, console := console st @ [ConsoleError e]\<rparr>
           | (h, Inr ch) \<Rightarrow>
               addDebugLog (Set_up_audio_processing_for participantName)
                 (st\<lparr>host := h\<lparr>handlers := (handlers h)(processorNode ch \<mapsto>
                                  \<lparr>m_isLocal = isLocal, m_participantName = participantName,
                                   m_sessionId = sid, m_analyserNode = analyserNode ch,
                                   lastLogTime = 0\<rparr>)\<rparr>,
                     audioProcessorsRef := AList.update sid ch (audioProcessorsRef st)\<rparr>)))"

subsection \<open>The effects\<close>

text \<open>
  The body of the first effect; \<open>window\<close> is \<^verbatim>\<open>typeof window !== 'undefined'\<close>.
  The constructor \<^verbatim>\<open>new AudioContext()\<close> is taken to succeed.
\<close>

definition setupEffect :: "bool \<Rightarrow> (build_step \<Rightarrow> bool) \<Rightarrow> participant option \<Rightarrow> component \<Rightarrow> component" where
  "setupEffect window throws localParticipant st =
     (if window then
        (case newAudioContext (host st) of (c, h) \<Rightarrow>
           let st1 = addDebugLog AudioContext_created (st\<lparr>host := h, audioContextRef := Some c\<rparr>) in
           (case localParticipant of
              None \<Rightarrow> st1
            | Some p \<Rightarrow>
                (case audioStream p of
                   None \<Rightarrow> st1
                 | Some stream \<Rightarrow>
                     processAudioStream throws stream (sessionId p) ''Local User'' True
                       (addDebugLog Local_participant_audio_detected st1))))
      else st)"

text \<open>The function the first effect returns.\<close>

definition disconnect_chain :: "audio_host \<Rightarrow> string \<times> chain \<Rightarrow> audio_host" where
  "disconnect_chain h entry = disconnect (processorNode (snd entry)) (disconnect (sourceNode (snd entry)) h)"

definition cleanup :: "component \<Rightarrow> component" where
  "cleanup st =
     (let h1 = (case audioContextRef st of None \<Rightarrow> host st | Some c \<Rightarrow> closeContext c (host st));
          h2 = foldl disconnect_chain h1 (audioProcessorsRef st)
      in addDebugLog AudioContext_cleaned_up (st\<lparr>host := h2, audioProcessorsRef := []\<rparr>))"

text \<open>The second effect: the callback of \<^verbatim>\<open>remoteParticipants.forEach\<close>, then the loop.\<close>

definition has :: "(string \<times> chain) list \<Rightarrow> string \<Rightarrow> bool" where
  "has registry sid = (map_of registry sid \<noteq> None)"

definition checkParticipant :: "(MediaStream \<Rightarrow> build_step \<Rightarrow> bool) \<Rightarrow> component \<Rightarrow> participant \<Rightarrow> component" where
  "checkParticipant throws st p =
     (let st1 = addDebugLog (Published_Tracks (publishedTracks p))
                  (addDebugLog (Audio_Level (audioLevel p))
                    (addDebugLog (Is_Speaking (isSpeaking p))
                      (addDebugLog (Checking_participant (name p)) st)))
      in case audioStream p of
           Some stream \<Rightarrow>
             if \<not> has (audioProcessorsRef st1) (sessionId p) then
               processAudioStream (throws stream) stream (sessionId p) (name p) False
                 (addDebugLog (Setting_up_audio_processing_for (name p)) st1)
             else st1
         | None \<Rightarrow> addDebugLog (No_audio_available_for (name p)) st1)"

definition remoteEffect :: "(MediaStream \<Rightarrow> build_step \<Rightarrow> bool) \<Rightarrow> participant list \<Rightarrow> component \<Rightarrow> component" where
  "remoteEffect throws remoteParticipants st = foldl (checkParticipant throws) st remoteParticipants"

text \<open>The component before its first effect has run.\<close>

definition initial :: "(nat \<Rightarrow> string) \<Rightarrow> component" where
  "initial clk =
     \<lparr>host = \<lparr>contexts = [], nodes = [], edges = [], handlers = Map.empty\<rparr>,
      audioContextRef = None, audioProcessorsRef = [], debugInfo = [], console = [],
      clock = clk, ticks = 0\<rparr>"

subsection \<open>The life of the component\<close>

text \<open>
  React runs the first effect when the component mounts. Afterwards it runs the second
  effect whenever \<^verbatim>\<open>remoteParticipants\<close> changes (also right after mounting), and
  whenever \<^verbatim>\<open>localParticipant\<close> changes it runs the function the first effect
  returned and then the first effect again. In between, the browser delivers
  \<^verbatim>\<open>audioprocess\<close> events. Unmounting runs \<open>cleanup\<close> and nothing of the component
  after it.
\<close>

datatype event =
    RemoteParticipantsChanged "MediaStream \<Rightarrow> build_step \<Rightarrow> bool" "participant list"
  | AudioProcessEvent nat "rat list" int
  | LocalParticipantChanged "build_step \<Rightarrow> bool" "participant option"

fun react :: "component \<Rightarrow> event \<Rightarrow> component" where
  "react st (RemoteParticipantsChanged throws remoteParticipants) = remoteEffect throws remoteParticipants st"
| "react st (AudioProcessEvent p dataArray now) = audioprocess p dataArray now st"
| "react st (LocalParticipantChanged throws localParticipant) =
     setupEffect True throws localParticipant (cleanup st)"

definition mount :: "(nat \<Rightarrow> string) \<Rightarrow> (build_step \<Rightarrow> bool) \<Rightarrow> participant option \<Rightarrow> component" where
  "mount clk throws localParticipant = setupEffect True throws localParticipant (initial clk)"

subsection \<open>Notions used to state the properties\<close>

text \<open>The loudness formula in the words of the specification: the square root of the mean of the squared samples.\<close>

definition mean :: "real list \<Rightarrow> real" where
  "mean xs = sum_list xs / real (length xs)"

definition root_mean_square :: "real list \<Rightarrow> real" where
  "root_mean_square samples = sqrt (mean (map (\<lambda>s. s\<^sup>2) samples))"

text \<open>Two readings of \<^verbatim>\<open>Date.now()\<close> that are more than \<open>LOG_INTERVAL\<close> apart.\<close>

definition gap :: "int \<Rightarrow> int \<Rightarrow> bool" where
  "gap a b = (b - a > 500)"

text \<open>
  What a \<^verbatim>\<open>try\<close> block that runs to its end adds to the graph \<open>h\<close>: three nodes of
  context \<open>c\<close> and the connections source \<open>\<rightarrow>\<close> analyser \<open>\<rightarrow>\<close> processor \<open>\<rightarrow>\<close> destination.
\<close>

definition new_chain :: "audio_host \<Rightarrow> chain" where
  "new_chain h = \<lparr>sourceNode = length (nodes h), processorNode = length (nodes h) + 2,
                  analyserNode = length (nodes h) + 1\<rparr>"

definition wired :: "nat \<Rightarrow> MediaStream \<Rightarrow> audio_host \<Rightarrow> audio_host" where
  "wired c stream h =
     h\<lparr>nodes := nodes h @ [(c, MediaStreamAudioSourceNode stream), (c, AnalyserNode 2048),
                            (c, ScriptProcessorNode 2048 1 1)],
       edges := edges h @ [(length (nodes h), Node (length (nodes h) + 1)),
                            (length (nodes h) + 1, Node (length (nodes h) + 2)),
                            (length (nodes h) + 2, Destination c)]\<rparr>"

definition new_monitor :: "audio_host \<Rightarrow> string \<Rightarrow> string \<Rightarrow> bool \<Rightarrow> monitor" where
  "new_monitor h sid participantName isLocal =
     \<lparr>m_isLocal = isLocal, m_participantName = participantName, m_sessionId = sid,
      m_analyserNode = length (nodes h) + 1, lastLogTime = 0\<rparr>"

text \<open>
  Node \<open>n\<close> was created by context \<open>c\<close>; a registry entry whose three nodes are nodes
  of \<open>c\<close> of the right kinds, with the analyser still connected to the processor; the
  state of a mounted component in which the registry describes the graph.
\<close>

definition owned :: "nat \<Rightarrow> audio_host \<Rightarrow> nat \<Rightarrow> bool" where
  "owned c h n \<longleftrightarrow> n < length (nodes h) \<and> fst (nodes h ! n) = c"

definition is_source :: "node_kind \<Rightarrow> bool" where
  "is_source k = (case k of MediaStreamAudioSourceNode stream \<Rightarrow> True | _ \<Rightarrow> False)"

definition is_analyser :: "node_kind \<Rightarrow> bool" where
  "is_analyser k = (case k of AnalyserNode fftSize \<Rightarrow> True | _ \<Rightarrow> False)"

definition is_processor :: "node_kind \<Rightarrow> bool" where
  "is_processor k = (case k of ScriptProcessorNode bufferSize ins outs \<Rightarrow> True | _ \<Rightarrow> False)"

definition chain_intact :: "nat \<Rightarrow> audio_host \<Rightarrow> string \<times> chain \<Rightarrow> bool" where
  "chain_intact c h entry \<longleftrightarrow>
     owned c h (sourceNode (snd entry)) \<and> is_source (snd (nodes h ! sourceNode (snd entry)))
     \<and> owned c h (analyserNode (snd entry)) \<and> is_analyser (snd (nodes h ! analyserNode (snd entry)))
     \<and> owned c h (processorNode (snd entry)) \<and> is_processor (snd (nodes h ! processorNode (snd entry)))
     \<and> (analyserNode (snd entry), Node (processorNode (snd entry))) \<in> set (edges h)"

definition well_formed :: "component \<Rightarrow> bool" where
  "well_formed st =
     (case audioContextRef st of
        None \<Rightarrow> False
      | Some c \<Rightarrow>
          c < length (contexts (host st)) \<and> \<not> contexts (host st) ! c
          \<and> list_all (chain_intact c (host st)) (audioProcessorsRef st)
          \<and> distinct (map fst (audioProcessorsRef st)))"

text \<open>
  A node that can receive no event any more: its context is closed. A graph that has only
  gained nodes and connections.
\<close>

definition dead :: "nat \<Rightarrow> audio_host \<Rightarrow> bool" where
  "dead p h \<longleftrightarrow> p < length (nodes h) \<and> fst (nodes h ! p) < length (contexts h)
                \<and> contexts h ! fst (nodes h ! p)"

definition grows :: "audio_host \<Rightarrow> audio_host \<Rightarrow> bool" where
  "grows h h' \<longleftrightarrow> (\<exists>ns. nodes h' = nodes h @ ns) \<and> (\<exists>es. edges h' = edges h @ es)
                 \<and> contexts h' = contexts h"

text \<open>
  What the second effect does for a participant \<open>p\<close> with stream \<open>stream\<close> that it
  attaches, from state \<open>st\<close> to state \<open>st'\<close>: one registry entry, three nodes, three
  connections and one handler more, and nothing else changed in graph and registry.
\<close>

definition attached :: "nat \<Rightarrow> participant \<Rightarrow> MediaStream \<Rightarrow> component \<Rightarrow> component \<Rightarrow> bool" where
  "attached c p stream st st' \<longleftrightarrow>
     audioProcessorsRef st' = audioProcessorsRef st @ [(sessionId p, new_chain (host st))]
     \<and> nodes (host st') = nodes (host st) @ [(c, MediaStreamAudioSourceNode stream),
          (c, AnalyserNode 2048), (c, ScriptProcessorNode 2048 1 1)]
     \<and> edges (host st') = edges (host st) @ [(length (nodes (host st)), Node (length (nodes (host st)) + 1)),
          (length (nodes (host st)) + 1, Node (length (nodes (host st)) + 2)),
          (length (nodes (host st)) + 2, Destination c)]
     \<and> handlers (host st') = (handlers (host st))(length (nodes (host st)) + 2 \<mapsto>
          new_monitor (host st) (sessionId p) (name p) False)"

text \<open>Concrete inputs: a mounted component without local participant, and three remote participants.\<close>

definition never :: "build_step \<Rightarrow> bool" where
  "never s = False"

definition mounted_example :: component where
  "mounted_example = setupEffect True never None (initial (\<lambda>k. ''12:00:00''))"

definition ann :: participant where
  "ann = \<lparr>name = ''Ann'', sessionId = ''s1'', audioStream = Some 7, isSpeaking = False,
          audioLevel = 0, publishedTracks = [1]\<rparr>"

definition bob :: participant where
  "bob = \<lparr>name = ''Bob'', sessionId = ''s2'', audioStream = Some 8, isSpeaking = True,
          audioLevel = 1 / 2, publishedTracks = [1, 2]\<rparr>"

definition carol :: participant where
  "carol = \<lparr>name = ''Carol'', sessionId = ''s3'', audioStream = None, isSpeaking = False,
            audioLevel = 0, publishedTracks = []\<rparr>"

definition with_ann :: component where
  "with_ann = remoteEffect (\<lambda>x. never) [ann] mounted_example"

definition attached_once :: component where
  "attached_once = processAudioStream never 7 ''s1'' ''Ann'' False mounted_example"

definition attached_twice :: component where
  "attached_twice = processAudioStream never 7 ''s1'' ''Ann'' False attached_once"

text \<open>
  The \<^verbatim>\<open>Float32Array\<close> made from \<open>[0.01, 0.01, 0.01, 0.01]\<close>, and a buffer of three
  binary32 samples whose loudness the code computes as the number \<^verbatim>\<open>0.01\<close> itself.
\<close>

definition stored_hundredths :: "rat list" where
  "stored_hundredths = map round32 [1 / 100, 1 / 100, 1 / 100, 1 / 100]"

definition at_threshold :: "rat list" where
  "at_threshold = [2324719 / 2 ^ 27, 8684615 / 2 ^ 40, 15138021 / 2 ^ 52]"

definition ann_monitor :: monitor where
  "ann_monitor = \<lparr>m_isLocal = False, m_participantName = ''Ann'', m_sessionId = ''s1'',
                  m_analyserNode = 1, lastLogTime = 1000\<rparr>"

text \<open>The browser throwing at one call of the \<^verbatim>\<open>try\<close> block.\<close>

definition fails_at :: "build_step \<Rightarrow> build_step \<Rightarrow> bool" where
  "fails_at s x = (x = s)"

section \<open>Properties\<close>

subsection \<open>The binary floating-point arithmetic rounds to nearest\<close>

lemma bit_length_nonneg: "0 \<le> bit_length a"
proof (induction a rule: bit_length.induct)
  case (1 a)
  show ?case
  proof (cases "a \<le> 0")
    case True
    then show ?thesis by (simp add: bit_length.simps [of a])
  next
    case False
    with "1.IH" have "0 \<le> bit_length (a div 2)" by simp
    with False show ?thesis by (simp add: bit_length.simps [of a])
  qed
qed

lemma isqrt_nonneg: "0 \<le> isqrt n"
proof (induction n rule: isqrt.induct)
  case (1 n)
  show ?case
  proof (cases "n \<le> 0")
    case True
    then show ?thesis by (simp add: isqrt.simps [of n])
  next
    case False
    with "1.IH" have "0 \<le> isqrt (n div 4)" by simp
    with False show ?thesis by (simp add: isqrt.simps [of n] Let_def)
  qed
qed

lemma bit_length_bounds:
  "0 < a \<Longrightarrow> 2 ^ nat (bit_length a - 1) \<le> a \<and> a < 2 ^ nat (bit_length a)"
proof (induction a rule: bit_length.induct)
  case (1 a)
  show ?case
  proof (cases "a div 2 = 0")
    case True
    with "1.prems" have "a = 1" by presburger
    then show ?thesis
      by (simp add: bit_length.simps [of 1] bit_length.simps [of 0])
  next
    case False
    with "1.prems" have pos: "0 < a div 2" by presburger
    with "1.prems" "1.IH" have ih: "2 ^ nat (bit_length (a div 2) - 1) \<le> a div 2"
      "a div 2 < 2 ^ nat (bit_length (a div 2))"
      by simp_all
    have bl: "1 \<le> bit_length (a div 2)"
      using pos bit_length_nonneg [of "a div 2 div 2"] by (simp add: bit_length.simps [of "a div 2"])
    have eq: "bit_length a = 1 + bit_length (a div 2)"
      using "1.prems" by (subst bit_length.simps) simp
    have n: "nat (bit_length a - 1) = Suc (nat (bit_length (a div 2) - 1))"
      "nat (bit_length a) = Suc (nat (bit_length (a div 2)))"
      using bl eq by simp_all
    from ih show ?thesis unfolding n by (simp, presburger)
  qed
qed

lemma round_half_even_nearest: "\<bar>of_int (round_half_even y) - y\<bar> \<le> 1 / 2"
proof -
  have "of_int \<lfloor>y\<rfloor> \<le> y" "y < of_int \<lfloor>y\<rfloor> + 1" by linarith+
  then show ?thesis
    by (auto simp: round_half_even_def Let_def)
qed

lemma isqrt_bounds: "0 \<le> n \<Longrightarrow> isqrt n * isqrt n \<le> n \<and> n < (isqrt n + 1) * (isqrt n + 1)"
proof (induction n rule: isqrt.induct)
  case (1 n)
  show ?case
  proof (cases "n \<le> 0")
    case True
    with "1.prems" have "n = 0" by simp
    then show ?thesis by (simp add: isqrt.simps [of 0])
  next
    case False
    let ?r = "isqrt (n div 4)"
    from False "1.prems" "1.IH" have ih: "?r * ?r \<le> n div 4" "n div 4 < (?r + 1) * (?r + 1)"
      by simp_all
    have r0: "0 \<le> ?r" by (rule isqrt_nonneg)
    have lo: "4 * (?r * ?r) \<le> n" using ih(1) by linarith
    have "n div 4 + 1 \<le> (?r + 1) * (?r + 1)" using ih(2) by simp
    then have hi: "n < 4 * ((?r + 1) * (?r + 1))" by linarith
    have eq: "isqrt n = (if (2 * ?r + 1) * (2 * ?r + 1) \<le> n then 2 * ?r + 1 else 2 * ?r)"
      using False by (subst isqrt.simps) (simp add: Let_def)
    show ?thesis
    proof (cases "(2 * ?r + 1) * (2 * ?r + 1) \<le> n")
      case True
      have "(2 * ?r + 1 + 1) * (2 * ?r + 1 + 1) = 4 * ((?r + 1) * (?r + 1))" by (simp add: algebra_simps)
      with True hi eq show ?thesis by simp
    next
      case False
      have "(2 * ?r) * (2 * ?r) = 4 * (?r * ?r)" by simp
      with False lo eq show ?thesis by simp
    qed
  qed
qed


lemma bit_length_rat:
  assumes "0 < a"
  shows "(2::rat) powi (bit_length a - 1) \<le> of_int a" and "(of_int a :: rat) < 2 powi bit_length a"
proof -
  from bit_length_bounds [OF assms]
  have lo: "2 ^ nat (bit_length a - 1) \<le> a" and hi: "a < 2 ^ nat (bit_length a)" by simp_all
  have pos: "1 \<le> bit_length a"
    using assms bit_length_nonneg [of "a div 2"] by (simp add: bit_length.simps [of a])
  from lo have "(of_int (2 ^ nat (bit_length a - 1)) :: rat) \<le> of_int a"
    by (simp only: of_int_le_iff)
  then show "(2::rat) powi (bit_length a - 1) \<le> of_int a"
    using pos by (simp add: power_int_def)
  from hi have "(of_int a :: rat) < of_int (2 ^ nat (bit_length a))"
    by (simp only: of_int_less_iff)
  then show "(of_int a :: rat) < 2 powi bit_length a"
    using pos by (simp add: power_int_def)
qed

text \<open>\<open>ilog2\<close> is the binary exponent.\<close>

lemma ilog2_bounds:
  assumes "0 < x"
  shows "2 powi ilog2 x \<le> x \<and> x < 2 powi (ilog2 x + 1)"
proof -
  obtain a b where q: "quotient_of x = (a, b)" by (cases "quotient_of x")
  then have b: "0 < b" by (rule quotient_of_denom_pos)
  from q have x: "x = of_int a / of_int b" by (rule quotient_of_div)
  with assms b have a: "0 < a" by (simp add: zero_less_divide_iff)
  let ?d = "bit_length a - bit_length b"
  have xb: "x * of_int b = of_int a" using x b by simp
  have bpos: "(0::rat) < of_int b" using b by simp
  have up: "x < 2 powi (?d + 1)"
  proof -
    have "x * of_int b < 2 powi bit_length a" using bit_length_rat(2) [OF a] xb by simp
    also have "\<dots> = 2 powi (?d + 1) * 2 powi (bit_length b - 1)"
      by (simp add: power_int_add [symmetric])
    also have "\<dots> \<le> 2 powi (?d + 1) * of_int b"
      using bit_length_rat(1) [OF b] by (simp add: mult_left_mono)
    finally show ?thesis using bpos by simp
  qed
  have low: "2 powi (?d - 1) \<le> x"
  proof -
    have "(2::rat) powi (?d - 1) * of_int b \<le> 2 powi (?d - 1) * 2 powi bit_length b"
      using bit_length_rat(2) [OF b] by (simp add: mult_left_mono)
    also have "\<dots> = 2 powi (bit_length a - 1)"
      by (simp add: power_int_add [symmetric])
    also have "\<dots> \<le> x * of_int b" using bit_length_rat(1) [OF a] xb by simp
    finally show ?thesis using bpos by simp
  qed
  show ?thesis
  proof (cases "2 powi ?d \<le> x")
    case True
    then have "ilog2 x = ?d" by (simp add: ilog2_def q)
    with True up show ?thesis by simp
  next
    case False
    then have "ilog2 x = ?d - 1" by (simp add: ilog2_def q)
    with False low show ?thesis by simp
  qed
qed

text \<open>
  \<open>round_to\<close> returns a multiple of the spacing \<open>2 powi e\<close> of the numbers around \<open>x\<close>,
  with at most \<open>p\<close> digits, and no further than half that spacing from \<open>x\<close>.
\<close>

lemma round_to_nearest:
  assumes "x \<noteq> 0"
  shows "\<exists>k. round_to p emin x = of_int k * 2 powi (max (ilog2 \<bar>x\<bar> - (int p - 1)) emin)
           \<and> \<bar>round_to p emin x - x\<bar> \<le> 2 powi (max (ilog2 \<bar>x\<bar> - (int p - 1)) emin) / 2
           \<and> \<bar>k\<bar> \<le> 2 ^ p"
proof -
  let ?e = "max (ilog2 \<bar>x\<bar> - (int p - 1)) emin"
  let ?k = "round_half_even (x / 2 powi ?e)"
  have pe: "(0::rat) < 2 powi ?e" by simp
  have r: "round_to p emin x = of_int ?k * 2 powi ?e"
    using assms by (simp add: round_to_def Let_def)
  have "\<bar>of_int ?k - x / 2 powi ?e\<bar> * 2 powi ?e \<le> 1 / 2 * 2 powi ?e"
    using round_half_even_nearest [of "x / 2 powi ?e"] pe by (intro mult_right_mono) simp_all
  moreover have "\<bar>of_int ?k - x / 2 powi ?e\<bar> * 2 powi ?e = \<bar>of_int ?k * 2 powi ?e - x\<bar>"
  proof -
    have "\<bar>of_int ?k - x / 2 powi ?e\<bar> * 2 powi ?e = \<bar>(of_int ?k - x / 2 powi ?e) * 2 powi ?e\<bar>"
      using pe by (simp add: abs_mult)
    also have "(of_int ?k - x / 2 powi ?e) * 2 powi ?e = of_int ?k * 2 powi ?e - x"
      using pe by (simp add: algebra_simps)
    finally show ?thesis .
  qed
  ultimately have near: "\<bar>round_to p emin x - x\<bar> \<le> 2 powi ?e / 2" using r by simp
  have "\<bar>x\<bar> < 2 powi (ilog2 \<bar>x\<bar> + 1)" using ilog2_bounds [of "\<bar>x\<bar>"] assms by simp
  also have "\<dots> \<le> 2 powi (?e + int p)" by (intro power_int_increasing) simp_all
  also have "\<dots> = 2 powi ?e * 2 ^ p" by (simp add: power_int_add)
  finally have "\<bar>x\<bar> < 2 ^ p * 2 powi ?e" by (simp add: mult.commute)
  then have "x < 2 ^ p * 2 powi ?e" "- (2 ^ p) * 2 powi ?e < x" by (simp_all add: abs_less_iff)
  then have "- (2 ^ p) < x / 2 powi ?e" "x / 2 powi ?e < 2 ^ p"
    using pe by (simp_all only: pos_less_divide_eq pos_divide_less_eq)
  then have "- (2 ^ p) \<le> \<lfloor>x / 2 powi ?e\<rfloor>" "\<lfloor>x / 2 powi ?e\<rfloor> < 2 ^ p"
    by (simp_all add: le_floor_iff floor_less_iff)
  moreover have "?k = \<lfloor>x / 2 powi ?e\<rfloor> \<or> ?k = \<lfloor>x / 2 powi ?e\<rfloor> + 1"
    by (simp add: round_half_even_def Let_def)
  ultimately have "\<bar>?k\<bar> \<le> 2 ^ p" by linarith
  with r near show ?thesis by blast
qed


text \<open>
  \<open>sqrt64\<close> returns \<open>k * 2 powi e\<close> for an integer \<open>k\<close> nearest to the square root of
  \<open>x / 4 powi e\<close>.
\<close>

lemma sqrt64_nearest:
  assumes "0 < x"
  shows "\<exists>k. sqrt64 x = of_int k * 2 powi (ilog2 x div 2 - 52)
           \<and> (of_int k - 1 / 2) * (of_int k - 1 / 2) \<le> x / 4 powi (ilog2 x div 2 - 52)
           \<and> x / 4 powi (ilog2 x div 2 - 52) \<le> (of_int k + 1 / 2) * (of_int k + 1 / 2)
           \<and> 0 < k"
proof -
  let ?e = "ilog2 x div 2 - 52"
  let ?y = "x / 4 powi ?e"
  let ?q = "isqrt \<lfloor>?y\<rfloor>"
  let ?h = "(of_int ?q + 1 / 2) * (of_int ?q + 1 / 2) :: rat"
  let ?k = "if ?y > ?h \<or> (?y = ?h \<and> odd ?q) then ?q + 1 else ?q"
  have p4: "(0::rat) < 4 powi ?e" by simp
  have four: "(4::rat) powi ?e = 2 powi (2 * ?e)"
  proof -
    have "(2::rat) powi (2 * ?e) = (2 powi 2) powi ?e" by (rule power_int_mult)
    then show ?thesis by simp
  qed
  define c :: int where "c = 104"
  have "(4::rat) powi ?e \<le> 2 powi (ilog2 x - c)"
    unfolding four c_def by (intro power_int_increasing) simp_all
  then have "(4::rat) powi ?e * 2 powi c \<le> 2 powi (ilog2 x - c) * 2 powi c"
    by (intro mult_right_mono) simp_all
  also have "\<dots> = 2 powi ilog2 x" by (simp add: power_int_add [symmetric])
  also have "\<dots> \<le> x" using ilog2_bounds [OF assms] by simp
  finally have "2 powi c \<le> ?y" using p4 by (simp add: pos_le_divide_eq mult.commute)
  moreover have "(1::rat) \<le> 2 powi c" by (simp add: c_def)
  ultimately have y1: "1 \<le> ?y" by linarith
  then have y1: "1 \<le> ?y" by simp
  from y1 have n1: "1 \<le> \<lfloor>?y\<rfloor>" by (simp add: le_floor_iff)
  from n1 have n0: "0 \<le> \<lfloor>?y\<rfloor>" by linarith
  from isqrt_bounds [OF n0] have lo: "?q * ?q \<le> \<lfloor>?y\<rfloor>" and hi: "\<lfloor>?y\<rfloor> < (?q + 1) * (?q + 1)"
    by simp_all
  have q0: "0 \<le> ?q" by (rule isqrt_nonneg)
  have q1: "1 \<le> ?q"
  proof (rule ccontr)
    assume "\<not> 1 \<le> ?q"
    with q0 have "?q = 0" by simp
    with hi n1 show False by simp
  qed
  have "(of_int (?q * ?q) :: rat) \<le> of_int \<lfloor>?y\<rfloor>" using lo by (simp only: of_int_le_iff)
  also have "\<dots> \<le> ?y" by linarith
  finally have ylo: "of_int ?q * of_int ?q \<le> ?y" by simp
  have "\<lfloor>?y\<rfloor> + 1 \<le> (?q + 1) * (?q + 1)" using hi by simp
  then have "(of_int (\<lfloor>?y\<rfloor> + 1) :: rat) \<le> of_int ((?q + 1) * (?q + 1))" by (simp only: of_int_le_iff)
  moreover have "?y < of_int (\<lfloor>?y\<rfloor> + 1)" by linarith
  ultimately have "?y < of_int ((?q + 1) * (?q + 1))" by linarith
  then have yhi: "?y < (of_int ?q + 1) * (of_int ?q + 1)" by simp
  have r: "sqrt64 x = of_int ?k * 2 powi ?e"
    using assms by (simp add: sqrt64_def Let_def)
  have qr: "(1::rat) \<le> of_int ?q" using q1 by simp
  have "(of_int ?k - 1 / 2) * (of_int ?k - 1 / 2) \<le> ?y
        \<and> ?y \<le> (of_int ?k + 1 / 2) * (of_int ?k + 1 / 2)"
  proof (cases "?y > ?h \<or> (?y = ?h \<and> odd ?q)")
    case True
    then have k: "?k = ?q + 1" by simp
    have a: "(of_int (?q + 1) - 1 / 2) * (of_int (?q + 1) - 1 / 2) = ?h" by (simp add: algebra_simps)
    have b: "(of_int ?q + 1) * (of_int ?q + 1) \<le> (of_int (?q + 1) + 1 / 2) * (of_int (?q + 1) + 1 / 2 :: rat)"
      using qr by (simp add: algebra_simps)
    from True have "?h \<le> ?y" by auto
    with a b yhi show ?thesis unfolding k by linarith
  next
    case False
    then have k: "?k = ?q" by simp
    from False have c: "?y \<le> ?h" by auto
    have "(of_int ?q - 1 / 2) * (of_int ?q - 1 / 2) \<le> of_int ?q * (of_int ?q :: rat)"
      using qr by (simp add: algebra_simps)
    with ylo c show ?thesis unfolding k by linarith
  qed
  moreover have "0 < ?k" using q1 by simp
  ultimately show ?thesis using r by blast
qed

subsection \<open>The loudness value\<close>




lemma halves_partial_sums:
  "foldl (\<lambda>acc val. acc + val * val) 0 [1 / 2 :: real] = 1 / 4
   \<and> foldl (\<lambda>acc val. acc + val * val) 0 [1 / 2 :: real, - (1 / 2)] = 1 / 2
   \<and> foldl (\<lambda>acc val. acc + val * val) 0 [1 / 2 :: real, - (1 / 2), 1 / 2] = 3 / 4
   \<and> foldl (\<lambda>acc val. acc + val * val) 0 [1 / 2 :: real, - (1 / 2), 1 / 2, - (1 / 2)] = 1"
  by simp


text \<open>Values of the binary64 arithmetic, computed by the kernel.\<close>

lemma literal_hundredth: "round64 (1 / 100) = 5764607523034235 / 2 ^ 59"
  by code_simp

lemma stored_hundredth: "round32 (1 / 100) = 5368709 / 536870912"
  by code_simp

lemma tenth_plus_two_tenths:
  "round64 (round64 (1 / 10) + round64 (2 / 10)) = 5404319552844596 / 2 ^ 54"
  by code_simp

lemma sqrt64_two: "sqrt64 2 = 6369051672525773 / 2 ^ 52"
  by code_simp

lemma rms64_one: "rms64 [1] = Some 1"
  by code_simp

lemma rms64_zeros: "rms64 [0, 0] = Some 0"
  by code_simp


lemma rms64_stored_hundredths: "rms64 stored_hundredths = Some (5368709 / 536870912)"
  unfolding stored_hundredths_def by code_simp

lemma rms64_at_threshold: "rms64 at_threshold = Some (5764607523034235 / 2 ^ 59)"
  unfolding at_threshold_def by code_simp

lemma float32_buffers:
  "list_all is_float32 stored_hundredths \<and> list_all is_float32 at_threshold
   \<and> list_all is_float32 [1 / 2, - (1 / 2), 1 / 2, - (1 / 2)]"
  unfolding stored_hundredths_def at_threshold_def by code_simp

text \<open>
  Exact and computed loudness can lie on different sides of \<open>1/100\<close>: the exact loudness
  of the samples of \<open>at_threshold\<close> is above it, and the loudness the code computes is
  the number \<^verbatim>\<open>0.01\<close> (\<open>rms64_at_threshold\<close>), which the test \<^verbatim>\<open>rms > 0.01\<close> rejects.
\<close>

lemma at_threshold_exact:
  "1 / 100 < root_mean_square [2324719 / 2 ^ 27, 8684615 / 2 ^ 40, 15138021 / 2 ^ 52]"
proof -
  have "(1 / 100 :: real) = sqrt ((1 / 100)\<^sup>2)" by simp
  also have "\<dots> < sqrt (mean (map (\<lambda>s. s\<^sup>2) [2324719 / 2 ^ 27, 8684615 / 2 ^ 40, 15138021 / 2 ^ 52]))"
    unfolding real_sqrt_less_iff by (simp add: mean_def power2_eq_square)
  finally show ?thesis by (simp add: root_mean_square_def)
qed



subsection \<open>Threshold and throttle\<close>

lemma emits_iff:
  "snd (onaudioprocess m dataArray now stamp) \<noteq> None
   \<longleftrightarrow> above_threshold (rms64 dataArray) \<and> now - lastLogTime m > 500"
  by (simp add: onaudioprocess_def LOG_INTERVAL_def Let_def)

lemma lastLogTime_after:
  "lastLogTime (fst (onaudioprocess m dataArray now stamp)) =
     (if snd (onaudioprocess m dataArray now stamp) \<noteq> None then now else lastLogTime m)"
  by (simp add: onaudioprocess_def LOG_INTERVAL_def Let_def)

lemma quiet_step:
  "\<not> above_threshold (rms64 dataArray) \<Longrightarrow> onaudioprocess m dataArray now stamp = (m, None)"
  by (simp add: onaudioprocess_def Let_def)

lemma quiet_audioprocess:
  assumes "\<not> above_threshold (rms64 dataArray)"
  shows "console (audioprocess p dataArray now st) = console st"
  by (simp add: audioprocess_def Let_def quiet_step [OF assms] split: option.splits)

lemma at_most_threshold:
  "(\<forall>r. rms64 dataArray = Some r \<longrightarrow> r \<le> round64 (1 / 100)) \<Longrightarrow> \<not> above_threshold (rms64 dataArray)"
  by (cases "rms64 dataArray") (auto simp: above_threshold_def)

lemma invocations_gaps:
  "sorted_wrt gap (map fst (fst (invocations m invs)))
   \<and> list_all (gap (lastLogTime m)) (map fst (fst (invocations m invs)))"
proof (induction invs arbitrary: m)
  case Nil
  show ?case by simp
next
  case (Cons inv invs)
  obtain dataArray now stamp where inv: "inv = (dataArray, now, stamp)"
    by (cases inv) auto
  show ?case
  proof (cases "snd (onaudioprocess m dataArray now stamp)")
    case None
    then have "onaudioprocess m dataArray now stamp = (m, None)"
      by (auto simp: onaudioprocess_def Let_def split: if_splits)
    then show ?thesis using Cons.IH [of m] inv by simp
  next
    case (Some d)
    then have step: "onaudioprocess m dataArray now stamp = (m\<lparr>lastLogTime := now\<rparr>, Some d)"
      and far: "gap (lastLogTime m) now"
      by (auto simp: onaudioprocess_def Let_def gap_def LOG_INTERVAL_def split: if_splits)
    let ?m' = "m\<lparr>lastLogTime := now\<rparr>"
    from Cons.IH [of ?m'] have sorted: "sorted_wrt gap (map fst (fst (invocations ?m' invs)))"
      and after: "list_all (gap now) (map fst (fst (invocations ?m' invs)))"
      by simp_all
    from after far have "list_all (gap (lastLogTime m)) (map fst (fst (invocations ?m' invs)))"
      by (auto simp: list_all_iff gap_def)
    with sorted after far show ?thesis
      using inv step by (simp add: split_beta list_all_iff)
  qed
qed

lemma window_two:
  assumes "sorted_wrt gap ts"
  shows "length (filter (\<lambda>t. w \<le> t \<and> t \<le> w + 1000) ts) \<le> 2"
proof -
  let ?fs = "filter (\<lambda>t. w \<le> t \<and> t \<le> w + 1000) ts"
  have s: "sorted_wrt gap ?fs" using assms by (rule sorted_wrt_filter)
  have inw: "\<forall>t \<in> set ?fs. w \<le> t \<and> t \<le> w + 1000" by simp
  show ?thesis
  proof (cases ?fs)
    case Nil
    then show ?thesis by simp
  next
    case (Cons a r1)
    note c1 = Cons
    show ?thesis
    proof (cases r1)
      case Nil
      with c1 show ?thesis by simp
    next
      case (Cons b r2)
      note c2 = Cons
      show ?thesis
      proof (cases r2)
        case Nil
        with c1 c2 show ?thesis by simp
      next
        case (Cons c r3)
        with c1 c2 have eq: "?fs = a # b # c # r3" by simp
        with s have "gap a b" "gap b c" by simp_all
        moreover from inw eq have "w \<le> a" "c \<le> w + 1000" by simp_all
        ultimately show ?thesis by (simp add: gap_def)
      qed
    qed
  qed
qed

text \<open>
  C2, as the code has it. An invocation logs an object exactly when the loudness it
  computes is above \<^verbatim>\<open>0.01\<close> and \<^bold>\<open>more than\<close> 500 ms lie between \<open>lastLogTime\<close> and now; it then sets
  \<open>lastLogTime\<close> to now and otherwise leaves it. Hence, over any sequence of invocations
  of a chain, any two objects logged are more than 500 ms apart, and no window of one
  second holds more than two of them.
\<close>

theorem throttled_emission:
  "(snd (onaudioprocess m dataArray now stamp) \<noteq> None
      \<longleftrightarrow> above_threshold (rms64 dataArray) \<and> now - lastLogTime m > 500)
   \<and> lastLogTime (fst (onaudioprocess m dataArray now stamp)) =
       (if snd (onaudioprocess m dataArray now stamp) \<noteq> None then now else lastLogTime m)
   \<and> sorted_wrt gap (map fst (fst (invocations m invs)))
   \<and> length (filter (\<lambda>t. w \<le> t \<and> t \<le> w + 1000) (map fst (fst (invocations m invs)))) \<le> 2"
  using emits_iff [of m dataArray now stamp] lastLogTime_after [of m dataArray now stamp]
    invocations_gaps [of m invs] window_two [of "map fst (fst (invocations m invs))" w]
  by simp

text \<open>
  A run of the chain of Ann, last logged at 1000, on a loud buffer at 1400, 1501, 1600,
  2001 and 2002: it logs at 1501 and at 2002.
\<close>

theorem throttled_emission_witness:
  "map fst (fst (invocations ann_monitor
      [([1], 1400, ''a''), ([1], 1501, ''b''), ([1], 1600, ''c''), ([1], 2001, ''d''),
       ([1], 2002, ''e'')])) = [1501, 2002]
   \<and> sorted_wrt gap [1501, 2002]"
  using throttled_emission [of ann_monitor "[1]" 1501 "''b''"
      "[([1], 1400, ''a''), ([1], 1501, ''b''), ([1], 1600, ''c''), ([1], 2001, ''d''),
        ([1], 2002, ''e'')]" 0]
  by (simp add: onaudioprocess_def rms64_one above_threshold_def literal_hundredth LOG_INTERVAL_def ann_monitor_def)

text \<open>
  C2 as stated fails where exactly 500 ms have passed: the loudness is above the
  threshold, at least 500 ms have elapsed since the last object, and nothing is logged.
\<close>

theorem emission_after_exactly_500_ms_counterexample:
  "above_threshold (rms64 [1]) \<and> 1500 - lastLogTime ann_monitor \<ge> 500
   \<and> snd (onaudioprocess ann_monitor [1] 1500 ''12:00:01'') = None"
  by (simp add: onaudioprocess_def rms64_one above_threshold_def literal_hundredth LOG_INTERVAL_def ann_monitor_def)

text \<open>
  C3, as the code has it. A buffer whose computed loudness is at most \<^verbatim>\<open>0.01\<close> (or is
  not a number) logs nothing, whatever the time and the closure: the closure is returned
  as it was and the console is untouched. The comparison is strict: the buffer
  \<open>at_threshold\<close>, whose computed loudness is the number \<^verbatim>\<open>0.01\<close> itself, logs nothing.
  The buffer \<open>[0.01, 0.01, 0.01, 0.01]\<close> is held by the \<^verbatim>\<open>Float32Array\<close> as four times
  \<open>0.009999999776482582\<close>; that number is its computed loudness, it lies below
  \<^verbatim>\<open>0.01\<close>, and the buffer logs nothing.
\<close>

theorem quiet_buffer_logs_nothing:
  "((\<forall>r. rms64 dataArray = Some r \<longrightarrow> r \<le> round64 (1 / 100)) \<longrightarrow>
       onaudioprocess m dataArray now stamp = (m, None)
       \<and> console (audioprocess p dataArray now st) = console st)
   \<and> rms64 at_threshold = Some (round64 (1 / 100))
   \<and> onaudioprocess m at_threshold now stamp = (m, None)
   \<and> rms64 stored_hundredths = Some (round32 (1 / 100))
   \<and> round32 (1 / 100) < round64 (1 / 100)
   \<and> onaudioprocess m stored_hundredths now stamp = (m, None)"
proof -
  have a: "\<not> above_threshold (rms64 at_threshold)"
    by (simp add: rms64_at_threshold above_threshold_def literal_hundredth)
  have b: "\<not> above_threshold (rms64 stored_hundredths)"
    by (simp add: rms64_stored_hundredths above_threshold_def literal_hundredth)
  have c: "round32 (1 / 100) < round64 (1 / 100)"
    by (simp add: stored_hundredth literal_hundredth)
  from a b c show ?thesis
    using at_most_threshold [of dataArray]
    by (auto simp: quiet_step quiet_audioprocess rms64_at_threshold rms64_stored_hundredths
        literal_hundredth stored_hundredth)
qed

theorem quiet_buffer_logs_nothing_witness:
  "rms64 [0, 0] = Some 0
   \<and> onaudioprocess ann_monitor [0, 0] 999999 ''12:16:39'' = (ann_monitor, None)"
  using quiet_buffer_logs_nothing [of "[0, 0]" ann_monitor 999999 "''12:16:39''"]
  by (simp add: rms64_zeros literal_hundredth)

text \<open>
  C3 as stated fails in its example: the loudness the code computes for the buffer
  \<open>[0.01, 0.01, 0.01, 0.01]\<close> is not \<^verbatim>\<open>0.01\<close>. The array holds the binary32 number
  \<open>5368709 / 536870912\<close>, the code computes that number as the loudness, and it is below
  \<open>1/100\<close>, which is below the number the literal \<^verbatim>\<open>0.01\<close> denotes.
\<close>

theorem stored_hundredths_loudness_counterexample:
  "stored_hundredths = [5368709 / 536870912, 5368709 / 536870912, 5368709 / 536870912,
                        5368709 / 536870912]
   \<and> rms64 stored_hundredths = Some (5368709 / 536870912)
   \<and> (5368709 / 536870912 :: rat) < 1 / 100
   \<and> (1 / 100 :: rat) < round64 (1 / 100)
   \<and> rms64 stored_hundredths \<noteq> Some (round64 (1 / 100))"
  by (simp add: rms64_stored_hundredths literal_hundredth)
    (simp add: stored_hundredths_def stored_hundredth)

subsection \<open>The debug log: auxiliary facts\<close>

lemma slice_last_length: "length (slice_last n xs) = min n (length xs)"
  by (simp add: slice_last_def)

lemma addDebugLog_length:
  "length (debugInfo (addDebugLog msg st)) = min 20 (length (debugInfo st)) + 1"
  by (simp add: addDebugLog_def slice_last_length)

lemma addDebugLog_keeps_latest:
  "debugInfo (addDebugLog msg st) =
     drop (length (debugInfo st) - 20) (debugInfo st) @ [(clock st (ticks st), msg)]
   \<and> length (debugInfo (addDebugLog msg st)) \<le> 21"
  by (simp add: addDebugLog_def slice_last_def)

lemma addDebugLog_fields:
  "host (addDebugLog msg st) = host st"
  "audioContextRef (addDebugLog msg st) = audioContextRef st"
  "audioProcessorsRef (addDebugLog msg st) = audioProcessorsRef st"
  "clock (addDebugLog msg st) = clock st"
  by (simp_all add: addDebugLog_def)

subsection \<open>Attaching a chain: auxiliary facts\<close>

lemma build_chain_ok:
  "\<forall>s. \<not> throws s \<Longrightarrow> build_chain throws c stream h = (wired c stream h, Inr (new_chain h))"
  by (simp add: build_chain_def createNode_def connect_def wired_def new_chain_def)

lemma build_chain_fail:
  "throws s \<Longrightarrow> \<exists>h' e. build_chain throws c stream h = (h', Inl e)"
  by (cases s) (simp_all add: build_chain_def createNode_def connect_def Let_def)

lemma processAudioStream_fail:
  assumes "throws s"
  shows "audioProcessorsRef (processAudioStream throws stream sid nm loc st) = audioProcessorsRef st"
    and "debugInfo (processAudioStream throws stream sid nm loc st) = debugInfo st"
    and "audioContextRef (processAudioStream throws stream sid nm loc st) = audioContextRef st"
    and "audioContextRef st = Some c \<Longrightarrow>
           \<exists>e. console (processAudioStream throws stream sid nm loc st) = console st @ [ConsoleError e]"
proof -
  obtain h' e where b: "build_chain throws (the (audioContextRef st)) stream (host st) = (h', Inl e)"
    using build_chain_fail [of throws s] assms by blast
  show "audioProcessorsRef (processAudioStream throws stream sid nm loc st) = audioProcessorsRef st"
    using b by (cases "audioContextRef st") (simp_all add: processAudioStream_def)
  show "debugInfo (processAudioStream throws stream sid nm loc st) = debugInfo st"
    using b by (cases "audioContextRef st") (simp_all add: processAudioStream_def)
  show "audioContextRef (processAudioStream throws stream sid nm loc st) = audioContextRef st"
    using b by (cases "audioContextRef st") (simp_all add: processAudioStream_def)
  show "audioContextRef st = Some c \<Longrightarrow>
           \<exists>e. console (processAudioStream throws stream sid nm loc st) = console st @ [ConsoleError e]"
    using b by (simp add: processAudioStream_def)
qed

lemma processAudioStream_ok:
  assumes "\<forall>s. \<not> throws s" and "audioContextRef st = Some c"
  shows "processAudioStream throws stream sid nm loc st =
     addDebugLog (Set_up_audio_processing_for nm)
       (st\<lparr>host := (wired c stream (host st))\<lparr>handlers :=
                      (handlers (host st))(length (nodes (host st)) + 2 \<mapsto> new_monitor (host st) sid nm loc)\<rparr>,
            audioProcessorsRef := AList.update sid (new_chain (host st)) (audioProcessorsRef st)\<rparr>)"
  using assms by (simp add: processAudioStream_def build_chain_ok new_chain_def wired_def new_monitor_def)

lemma processAudioStream_ok_fields:
  assumes "\<forall>s. \<not> throws s" and "audioContextRef st = Some c"
  shows "host (processAudioStream throws stream sid nm loc st) =
           (wired c stream (host st))\<lparr>handlers :=
              (handlers (host st))(length (nodes (host st)) + 2 \<mapsto> new_monitor (host st) sid nm loc)\<rparr>"
    and "audioProcessorsRef (processAudioStream throws stream sid nm loc st) =
           AList.update sid (new_chain (host st)) (audioProcessorsRef st)"
    and "audioContextRef (processAudioStream throws stream sid nm loc st) = Some c"
  using assms(2) by (simp_all add: processAudioStream_ok [OF assms] addDebugLog_fields)

lemma update_absent: "k \<notin> fst ` set al \<Longrightarrow> AList.update k v al = al @ [(k, v)]"
  by (induction al) auto

lemma one_entry:
  "distinct (map fst al) \<Longrightarrow> length (filter (\<lambda>e. fst e = k) (AList.update k v al)) = 1"
proof (induction al)
  case Nil
  show ?case by simp
next
  case (Cons e al)
  show ?case
  proof (cases "fst e = k")
    case True
    with Cons.prems have "k \<notin> fst ` set al" by auto
    then have "filter (\<lambda>e. fst e = k) al = []" by (auto simp: filter_empty_conv)
    with True show ?thesis by simp
  next
    case False
    with Cons show ?thesis by simp
  qed
qed

lemma has_append: "has (al @ [(k, v)]) sid \<longleftrightarrow> has al sid \<or> k = sid"
  by (auto simp: has_def)

lemma has_absent: "\<not> has al k \<Longrightarrow> k \<notin> fst ` set al"
  by (simp add: has_def map_of_eq_None_iff)

subsection \<open>The remote effect: auxiliary facts\<close>

lemma checkParticipant_known:
  assumes "audioStream p = Some stream" and "has (audioProcessorsRef st) (sessionId p)"
  shows "host (checkParticipant throws st p) = host st"
    and "audioProcessorsRef (checkParticipant throws st p) = audioProcessorsRef st"
    and "audioContextRef (checkParticipant throws st p) = audioContextRef st"
  using assms by (simp_all add: checkParticipant_def addDebugLog_fields)

lemma checkParticipant_silent:
  assumes "audioStream p = None"
  shows "host (checkParticipant throws st p) = host st"
    and "audioProcessorsRef (checkParticipant throws st p) = audioProcessorsRef st"
    and "audioContextRef (checkParticipant throws st p) = audioContextRef st"
    and "console (checkParticipant throws st p) =
           console st @ map ConsoleLog [Checking_participant (name p), Is_Speaking (isSpeaking p),
             Audio_Level (audioLevel p), Published_Tracks (publishedTracks p),
             No_audio_available_for (name p)]"
  using assms by (simp_all add: checkParticipant_def addDebugLog_def)

lemma checkParticipant_new:
  assumes "audioStream p = Some stream" and "\<not> has (audioProcessorsRef st) (sessionId p)"
    and "audioContextRef st = Some c" and "\<forall>s. \<not> throws stream s"
  shows "host (checkParticipant throws st p) =
           (wired c stream (host st))\<lparr>handlers := (handlers (host st))(length (nodes (host st)) + 2 \<mapsto>
              new_monitor (host st) (sessionId p) (name p) False)\<rparr>"
    and "audioProcessorsRef (checkParticipant throws st p) =
           audioProcessorsRef st @ [(sessionId p, new_chain (host st))]"
    and "audioContextRef (checkParticipant throws st p) = audioContextRef st"
proof -
  let ?st1 = "addDebugLog (Setting_up_audio_processing_for (name p))
     (addDebugLog (Published_Tracks (publishedTracks p))
                  (addDebugLog (Audio_Level (audioLevel p))
                    (addDebugLog (Is_Speaking (isSpeaking p))
                      (addDebugLog (Checking_participant (name p)) st))))"
  have f: "host ?st1 = host st" "audioProcessorsRef ?st1 = audioProcessorsRef st"
    "audioContextRef ?st1 = Some c"
    using assms(3) by (simp_all add: addDebugLog_fields)
  have cp: "checkParticipant throws st p =
      processAudioStream (throws stream) stream (sessionId p) (name p) False ?st1"
    using assms(1,2) by (simp add: checkParticipant_def addDebugLog_fields)
  note ok = processAudioStream_ok_fields [OF assms(4) f(3), of stream "sessionId p" "name p" False]
  show "host (checkParticipant throws st p) =
           (wired c stream (host st))\<lparr>handlers := (handlers (host st))(length (nodes (host st)) + 2 \<mapsto>
              new_monitor (host st) (sessionId p) (name p) False)\<rparr>"
    unfolding cp ok f by (rule refl)
  show "audioProcessorsRef (checkParticipant throws st p) =
           audioProcessorsRef st @ [(sessionId p, new_chain (host st))]"
    unfolding cp ok f using has_absent [OF assms(2)] by (simp add: update_absent)
  show "audioContextRef (checkParticipant throws st p) = audioContextRef st"
    unfolding cp ok by (simp add: assms(3))
qed

lemma checkParticipant_has:
  assumes "audioContextRef st = Some c" and "\<forall>x s. \<not> throws x s"
  shows "has (audioProcessorsRef (checkParticipant throws st p)) sid
           \<longleftrightarrow> has (audioProcessorsRef st) sid \<or> (audioStream p \<noteq> None \<and> sessionId p = sid)"
    and "audioContextRef (checkParticipant throws st p) = Some c"
proof -
  show "has (audioProcessorsRef (checkParticipant throws st p)) sid
           \<longleftrightarrow> has (audioProcessorsRef st) sid \<or> (audioStream p \<noteq> None \<and> sessionId p = sid)"
  proof (cases "audioStream p")
    case None
    then show ?thesis by (simp add: checkParticipant_silent)
  next
    case (Some stream)
    show ?thesis
    proof (cases "has (audioProcessorsRef st) (sessionId p)")
      case True
      with Some show ?thesis by (auto simp: checkParticipant_known)
    next
      case False
      from assms(2) have "\<forall>s. \<not> throws stream s" by simp
      with Some False assms(1)
      have "audioProcessorsRef (checkParticipant throws st p) =
              audioProcessorsRef st @ [(sessionId p, new_chain (host st))]"
        by (rule checkParticipant_new(2))
      with Some show ?thesis by (auto simp: has_append)
    qed
  qed
  show "audioContextRef (checkParticipant throws st p) = Some c"
  proof (cases "audioStream p")
    case None
    then show ?thesis by (simp add: checkParticipant_silent assms(1))
  next
    case (Some stream)
    show ?thesis
    proof (cases "has (audioProcessorsRef st) (sessionId p)")
      case True
      with Some show ?thesis by (simp add: checkParticipant_known assms(1))
    next
      case False
      from assms(2) have "\<forall>s. \<not> throws stream s" by simp
      with Some False assms(1)
      have "audioContextRef (checkParticipant throws st p) = audioContextRef st"
        by (rule checkParticipant_new(3))
      with assms(1) show ?thesis by simp
    qed
  qed
qed

lemma remoteEffect_has:
  assumes "audioContextRef st = Some c" and "\<forall>x s. \<not> throws x s"
  shows "has (audioProcessorsRef (remoteEffect throws ps st)) sid
           \<longleftrightarrow> has (audioProcessorsRef st) sid \<or> (\<exists>p\<in>set ps. audioStream p \<noteq> None \<and> sessionId p = sid)"
  using assms(1)
proof (induction ps arbitrary: st)
  case Nil
  show ?case by (simp add: remoteEffect_def)
next
  case (Cons p ps)
  note cp = checkParticipant_has [OF Cons.prems assms(2), of p]
  have "remoteEffect throws (p # ps) st = remoteEffect throws ps (checkParticipant throws st p)"
    by (simp add: remoteEffect_def)
  with Cons.IH [OF cp(2)] cp(1) show ?case by auto
qed

lemma remoteEffect_known:
  assumes "\<forall>p\<in>set ps. audioStream p \<noteq> None \<longrightarrow> has (audioProcessorsRef st) (sessionId p)"
  shows "host (remoteEffect throws ps st) = host st
         \<and> audioProcessorsRef (remoteEffect throws ps st) = audioProcessorsRef st"
  using assms
proof (induction ps arbitrary: st)
  case Nil
  show ?case by (simp add: remoteEffect_def)
next
  case (Cons p ps)
  have step: "host (checkParticipant throws st p) = host st
     \<and> audioProcessorsRef (checkParticipant throws st p) = audioProcessorsRef st"
  proof (cases "audioStream p")
    case None
    then show ?thesis by (simp add: checkParticipant_silent)
  next
    case (Some stream)
    with Cons.prems have "has (audioProcessorsRef st) (sessionId p)" by simp
    with Some show ?thesis by (simp add: checkParticipant_known)
  qed
  have unfold: "remoteEffect throws (p # ps) st = remoteEffect throws ps (checkParticipant throws st p)"
    by (simp add: remoteEffect_def)
  from Cons.prems step
  have "\<forall>q\<in>set ps. audioStream q \<noteq> None \<longrightarrow> has (audioProcessorsRef (checkParticipant throws st p)) (sessionId q)"
    by simp
  from Cons.IH [OF this] step unfold show ?case by simp
qed

subsection \<open>Teardown: auxiliary facts\<close>

lemma foldl_disconnect_chain:
  "edges (foldl disconnect_chain h reg) =
     filter (\<lambda>(a, b). a \<notin> sourceNode ` snd ` set reg \<and> a \<notin> processorNode ` snd ` set reg) (edges h)
   \<and> contexts (foldl disconnect_chain h reg) = contexts h
   \<and> nodes (foldl disconnect_chain h reg) = nodes h
   \<and> handlers (foldl disconnect_chain h reg) = handlers h"
proof (induction reg arbitrary: h)
  case Nil
  show ?case by simp
next
  case (Cons e reg)
  have "filter (\<lambda>(a, b). a \<notin> sourceNode ` snd ` set reg \<and> a \<notin> processorNode ` snd ` set reg)
          (edges (disconnect_chain h e)) =
        filter (\<lambda>(a, b). a \<notin> sourceNode ` snd ` set (e # reg) \<and> a \<notin> processorNode ` snd ` set (e # reg))
          (edges h)"
    by (auto simp: disconnect_chain_def disconnect_def intro!: filter_cong)
  with Cons [of "disconnect_chain h e"] show ?case
    by (simp add: disconnect_chain_def disconnect_def)
qed

lemma cleanup_fields:
  "audioProcessorsRef (cleanup st) = []"
  "audioContextRef (cleanup st) = audioContextRef st"
  "nodes (host (cleanup st)) = nodes (host st)"
  "edges (host (cleanup st)) =
     filter (\<lambda>(a, b). a \<notin> sourceNode ` snd ` set (audioProcessorsRef st)
                     \<and> a \<notin> processorNode ` snd ` set (audioProcessorsRef st)) (edges (host st))"
  "contexts (host (cleanup st)) =
     (case audioContextRef st of None \<Rightarrow> contexts (host st) | Some c \<Rightarrow> (contexts (host st))[c := True])"
  by (simp_all add: cleanup_def Let_def addDebugLog_fields foldl_disconnect_chain closeContext_def
      split: option.splits)

lemma audioprocess_closed:
  assumes "p < length (nodes (host st)) \<longrightarrow> fst (nodes (host st) ! p) < length (contexts (host st))
             \<longrightarrow> contexts (host st) ! fst (nodes (host st) ! p)"
  shows "audioprocess p dataArray now st = st"
  using assms by (auto simp: audioprocess_def Let_def)

lemma audioprocess_after_cleanup:
  assumes "audioContextRef st = Some c" and "p < length (nodes (host st))"
    and "fst (nodes (host st) ! p) = c"
  shows "audioprocess p dataArray now (cleanup st) = cleanup st"
  by (rule audioprocess_closed) (simp add: cleanup_fields assms)

subsection \<open>Failure of an attachment, and the size of the debug log\<close>

lemmas run_defs = mounted_example_def never_def initial_def setupEffect_def newAudioContext_def
  addDebugLog_def slice_last_def processAudioStream_def build_chain_def createNode_def connect_def
  checkParticipant_def remoteEffect_def has_def ann_def bob_def carol_def cleanup_def
  disconnect_chain_def disconnect_def closeContext_def

lemma checkParticipant_failed:
  assumes "audioStream p = Some stream" and "throws stream s"
  shows "audioProcessorsRef (checkParticipant throws st p) = audioProcessorsRef st"
    and "audioContextRef (checkParticipant throws st p) = audioContextRef st"
  using assms
  by (simp_all add: checkParticipant_def Let_def addDebugLog_fields
      processAudioStream_fail [of "throws stream" s])

text \<open>
  C5. When a call of the \<^verbatim>\<open>try\<close> block throws, \<^verbatim>\<open>processAudioStream\<close> returns
  normally: the \<^verbatim>\<open>catch\<close> branch writes the error to the console, and the registry
  and the context reference are what they were. So a participant that was not registered
  is still not registered after a notification whose attachment failed, and the next
  notification, if nothing throws then, registers it.
\<close>

theorem failed_attach_leaves_participant_unregistered:
  "(throws s \<longrightarrow>
      audioProcessorsRef (processAudioStream throws stream sid nm loc st) = audioProcessorsRef st
      \<and> audioContextRef (processAudioStream throws stream sid nm loc st) = audioContextRef st
      \<and> (audioContextRef st = Some c \<longrightarrow>
           (\<exists>e. console (processAudioStream throws stream sid nm loc st) = console st @ [ConsoleError e])))
   \<and> (audioContextRef st = Some c \<and> audioStream p = Some stream
        \<and> \<not> has (audioProcessorsRef st) (sessionId p)
        \<and> first stream s \<and> (\<forall>x. \<not> retry stream x) \<longrightarrow>
          \<not> has (audioProcessorsRef (checkParticipant first st p)) (sessionId p)
          \<and> has (audioProcessorsRef (checkParticipant retry (checkParticipant first st p) p)) (sessionId p))"
proof (intro conjI impI)
  assume t: "throws s"
  show "audioProcessorsRef (processAudioStream throws stream sid nm loc st) = audioProcessorsRef st"
    using t by (rule processAudioStream_fail)
  show "audioContextRef (processAudioStream throws stream sid nm loc st) = audioContextRef st"
    using t by (rule processAudioStream_fail)
  assume "audioContextRef st = Some c"
  with t show "\<exists>e. console (processAudioStream throws stream sid nm loc st) = console st @ [ConsoleError e]"
    by (rule processAudioStream_fail)
next
  assume a: "audioContextRef st = Some c \<and> audioStream p = Some stream
        \<and> \<not> has (audioProcessorsRef st) (sessionId p)
        \<and> first stream s \<and> (\<forall>x. \<not> retry stream x)"
  let ?st1 = "checkParticipant first st p"
  from a have reg: "audioProcessorsRef ?st1 = audioProcessorsRef st"
    and ctx: "audioContextRef ?st1 = Some c"
    by (simp_all add: checkParticipant_failed [of p stream first s])
  from a reg show "\<not> has (audioProcessorsRef ?st1) (sessionId p)" by simp
  from a reg have "\<not> has (audioProcessorsRef ?st1) (sessionId p)" by simp
  with a ctx have "audioProcessorsRef (checkParticipant retry ?st1 p) =
      audioProcessorsRef ?st1 @ [(sessionId p, new_chain (host ?st1))]"
    by (intro checkParticipant_new(2) [of p stream ?st1 c retry]) simp_all
  then show "has (audioProcessorsRef (checkParticipant retry ?st1 p)) (sessionId p)"
    by (simp add: has_append)
qed

theorem failed_attach_leaves_participant_unregistered_witness:
  "fails_at CreateScriptProcessor CreateScriptProcessor
   \<and> audioProcessorsRef (processAudioStream (fails_at CreateScriptProcessor) 7 ''s1'' ''Ann'' False mounted_example) = []
   \<and> audioContextRef mounted_example = Some 0
   \<and> \<not> has (audioProcessorsRef (checkParticipant (\<lambda>x. fails_at CreateScriptProcessor) mounted_example ann)) ''s1''
   \<and> has (audioProcessorsRef (checkParticipant (\<lambda>x. never)
            (checkParticipant (\<lambda>x. fails_at CreateScriptProcessor) mounted_example ann) ann)) ''s1''"
  using failed_attach_leaves_participant_unregistered [of "fails_at CreateScriptProcessor"
      CreateScriptProcessor 7 "''s1''" "''Ann''" False mounted_example 0 ann
      "\<lambda>x. fails_at CreateScriptProcessor" "\<lambda>x. never"]
  by (simp add: fails_at_def run_defs)

text \<open>
  C6, as the code has it. A failed attachment is reported by \<^verbatim>\<open>console.error\<close> only:
  the call of \<^verbatim>\<open>addDebugLog\<close> in the \<^verbatim>\<open>catch\<close> branch is commented out, and the
  debug log is what it was before the call.
\<close>

theorem failed_attach_not_in_debug_log:
  "throws s \<longrightarrow>
     debugInfo (processAudioStream throws stream sid nm loc st) = debugInfo st
     \<and> (audioContextRef st = Some c \<longrightarrow>
          (\<exists>e. console (processAudioStream throws stream sid nm loc st) = console st @ [ConsoleError e]))"
  using processAudioStream_fail(2) [of throws s stream sid nm loc st]
    processAudioStream_fail(4) [of throws s st c stream sid nm loc] by simp

theorem failed_attach_not_in_debug_log_witness:
  "fails_at ConnectAnalyserToProcessor ConnectAnalyserToProcessor
   \<and> debugInfo (processAudioStream (fails_at ConnectAnalyserToProcessor) 7 ''s1'' ''Ann'' False mounted_example)
       = [(''12:00:00'', AudioContext_created)]
   \<and> console (processAudioStream (fails_at ConnectAnalyserToProcessor) 7 ''s1'' ''Ann'' False mounted_example)
       = [ConsoleLog AudioContext_created, ConsoleError (DOMException ConnectAnalyserToProcessor)]"
  using failed_attach_not_in_debug_log [of "fails_at ConnectAnalyserToProcessor"
      ConnectAnalyserToProcessor 7 "''s1''" "''Ann''" False mounted_example 0]
  by (simp add: fails_at_def run_defs)

text \<open>
  C6 as stated fails: creating the source node throws, and the debug log of the mounted
  component receives no entry; the error is on the console.
\<close>

theorem failed_attach_debug_log_counterexample:
  "snd (build_chain (fails_at CreateMediaStreamSource) 0 7 (host mounted_example))
     = Inl (DOMException CreateMediaStreamSource)
   \<and> debugInfo (processAudioStream (fails_at CreateMediaStreamSource) 7 ''s1'' ''Ann'' False mounted_example)
     = debugInfo mounted_example
   \<and> console (processAudioStream (fails_at CreateMediaStreamSource) 7 ''s1'' ''Ann'' False mounted_example)
     = console mounted_example @ [ConsoleError (DOMException CreateMediaStreamSource)]"
  by (simp add: fails_at_def run_defs)

text \<open>
  C7. \<^verbatim>\<open>[...prev.slice(-20), entry]\<close> keeps the last 20 entries and appends one more, so
  the list grows to 21 entries, not 20: so it is after the mounted component has looked at
  four participants without audio, and after any message is added to a log of 20 entries.
  The entries dropped are the oldest (\<open>addDebugLog_keeps_latest\<close>).
\<close>

theorem debug_log_holds_21_entries:
  "length (debugInfo (remoteEffect (\<lambda>x. never) [carol, carol, carol, carol] mounted_example)) = 21
   \<and> length (debugInfo (addDebugLog msg (st\<lparr>debugInfo := replicate 20 e\<rparr>))) = 21"
  by (simp add: addDebugLog_length) (simp add: run_defs)

subsection \<open>The first loud invocation of a fresh chain\<close>

lemma invocations_quiet:
  "list_all (\<lambda>inv. \<not> above_threshold (rms64 (fst inv))) quiet \<Longrightarrow> invocations m quiet = ([], m)"
  by (induction quiet) (auto simp: quiet_step)

lemma wired_fields:
  "nodes (wired c stream h) = nodes h @ [(c, MediaStreamAudioSourceNode stream), (c, AnalyserNode 2048),
                            (c, ScriptProcessorNode 2048 1 1)]"
  "edges (wired c stream h) = edges h @ [(length (nodes h), Node (length (nodes h) + 1)),
                            (length (nodes h) + 1, Node (length (nodes h) + 2)),
                            (length (nodes h) + 2, Destination c)]"
  "contexts (wired c stream h) = contexts h"
  "handlers (wired c stream h) = handlers h"
  by (simp_all add: wired_def)

lemma audioprocess_loud:
  assumes "p < length (nodes (host st))" and "fst (nodes (host st) ! p) < length (contexts (host st))"
    and "\<not> contexts (host st) ! fst (nodes (host st) ! p)"
    and "handlers (host st) p = Some m"
    and "above_threshold (rms64 dataArray)" and "500 < now - lastLogTime m"
  shows "\<exists>d. console (audioprocess p dataArray now st) = console st @ [ConsoleLogObject d]"
  using assms by (simp add: audioprocess_def Let_def onaudioprocess_def LOG_INTERVAL_def)

text \<open>
  C10. A chain that has just been attached carries \<open>lastLogTime = 0\<close>. While the
  computed loudness of its buffers stays at or below \<^verbatim>\<open>0.01\<close> it logs nothing and
  \<open>lastLogTime\<close> stays \<open>0\<close>; the first buffer whose computed loudness is above
  \<^verbatim>\<open>0.01\<close> is logged at once, however short the time since
  the attachment, because \<^verbatim>\<open>Date.now()\<close> counts the milliseconds since 1970 and is
  larger than 500. If the context is open, the object reaches the console.
\<close>

theorem first_loud_invocation_logs:
  assumes "audioContextRef st = Some c" and "\<forall>s. \<not> throws s"
    and "list_all (\<lambda>inv. \<not> above_threshold (rms64 (fst inv))) quiet"
    and "above_threshold (rms64 dataArray)" and "500 < now"
  shows "\<exists>ch m. map_of (audioProcessorsRef (processAudioStream throws stream sid nm loc st)) sid = Some ch
           \<and> handlers (host (processAudioStream throws stream sid nm loc st)) (processorNode ch) = Some m
           \<and> lastLogTime m = 0
           \<and> invocations m quiet = ([], m)
           \<and> snd (onaudioprocess m dataArray now stamp) \<noteq> None
           \<and> (c < length (contexts (host st)) \<and> \<not> contexts (host st) ! c \<longrightarrow>
                (\<exists>d. console (audioprocess (processorNode ch) dataArray now
                                (processAudioStream throws stream sid nm loc st))
                      = console (processAudioStream throws stream sid nm loc st) @ [ConsoleLogObject d]))"
proof -
  let ?st' = "processAudioStream throws stream sid nm loc st"
  let ?ch = "new_chain (host st)"
  let ?m = "new_monitor (host st) sid nm loc"
  note f = processAudioStream_ok_fields [OF assms(2,1), of stream sid nm loc]
  have reg: "map_of (audioProcessorsRef ?st') sid = Some ?ch"
    by (simp add: f update_conv')
  have h: "handlers (host ?st') (processorNode ?ch) = Some ?m"
    by (simp add: f new_chain_def)
  have z: "lastLogTime ?m = 0"
    by (simp add: new_monitor_def)
  have q: "invocations ?m quiet = ([], ?m)"
    using assms(3) by (rule invocations_quiet)
  have e: "snd (onaudioprocess ?m dataArray now stamp) \<noteq> None"
    using assms(4,5) emits_iff [of ?m dataArray now stamp] by (simp add: z)
  have a: "c < length (contexts (host st)) \<and> \<not> contexts (host st) ! c \<longrightarrow>
      (\<exists>d. console (audioprocess (processorNode ?ch) dataArray now ?st') = console ?st' @ [ConsoleLogObject d])"
  proof
    assume o: "c < length (contexts (host st)) \<and> \<not> contexts (host st) ! c"
    have n: "nodes (host ?st') ! processorNode ?ch = (c, ScriptProcessorNode 2048 1 1)"
      by (simp add: f wired_fields new_chain_def nth_append)
    show "\<exists>d. console (audioprocess (processorNode ?ch) dataArray now ?st') = console ?st' @ [ConsoleLogObject d]"
    proof (rule audioprocess_loud [where m = ?m])
      show "processorNode ?ch < length (nodes (host ?st'))"
        by (simp add: f wired_fields new_chain_def)
      show "fst (nodes (host ?st') ! processorNode ?ch) < length (contexts (host ?st'))"
        using o by (simp add: n) (simp add: f wired_fields)
      show "\<not> contexts (host ?st') ! fst (nodes (host ?st') ! processorNode ?ch)"
        using o by (simp add: n) (simp add: f wired_fields)
      show "handlers (host ?st') (processorNode ?ch) = Some ?m" by (rule h)
      show "above_threshold (rms64 dataArray)" by (rule assms(4))
      show "500 < now - lastLogTime ?m" using assms(5) by (simp add: z)
    qed
  qed
  from reg h z q e a show ?thesis by blast
qed

text \<open>
  Ann's chain on the mounted component: two silent buffers at 501 and 502, then a loud one
  at 503, which is logged.
\<close>

theorem first_loud_invocation_logs_witness:
  "audioContextRef mounted_example = Some 0
   \<and> above_threshold (rms64 [1])
   \<and> (\<exists>ch m. map_of (audioProcessorsRef (processAudioStream never 7 ''s1'' ''Ann'' False mounted_example)) ''s1'' = Some ch
           \<and> handlers (host (processAudioStream never 7 ''s1'' ''Ann'' False mounted_example)) (processorNode ch) = Some m
           \<and> lastLogTime m = 0
           \<and> invocations m [([0, 0], 501, ''a''), ([0, 0], 502, ''b'')] = ([], m)
           \<and> snd (onaudioprocess m [1] 503 ''c'') \<noteq> None)"
proof -
  have 1: "audioContextRef mounted_example = Some 0" by (simp add: run_defs)
  have 2: "\<forall>s. \<not> never s" by (simp add: never_def)
  have 3: "list_all (\<lambda>inv. \<not> above_threshold (rms64 (fst inv)))
             [([0, 0], 501::int, ''a''), ([0, 0], 502, ''b'')]"
    by (simp add: rms64_zeros above_threshold_def literal_hundredth)
  have 4: "above_threshold (rms64 [1])" by (simp add: rms64_one above_threshold_def literal_hundredth)
  have 5: "(500::int) < 503" by simp
  from first_loud_invocation_logs [OF 1 2 3 4 5, of 7 "''s1''" "''Ann''" False "''c''"] 1 4
  show ?thesis by blast
qed

subsection \<open>A notification of the remote participants\<close>

lemma remoteEffect_Cons:
  "remoteEffect throws (p # ps) st = remoteEffect throws ps (checkParticipant throws st p)"
  by (simp add: remoteEffect_def)

lemma remoteEffect_Nil: "remoteEffect throws [] st = st"
  by (simp add: remoteEffect_def)

lemma checkParticipant_attached:
  assumes "audioStream p = Some stream" and "\<not> has (audioProcessorsRef st) (sessionId p)"
    and "audioContextRef st = Some c" and "\<forall>s. \<not> throws stream s"
  shows "attached c p stream st (checkParticipant throws st p)"
  using checkParticipant_new(1) [of p stream st c throws]
    checkParticipant_new(2) [of p stream st c throws] assms
  by (simp add: attached_def wired_fields)

lemma attached_known:
  assumes "attached c p stream st st'" and "host st'' = host st'"
    and "audioProcessorsRef st'' = audioProcessorsRef st'"
  shows "attached c p stream st st''"
  using assms by (simp add: attached_def)

lemma attached_after_known:
  assumes "attached c p stream st' st''" and "host st' = host st"
    and "audioProcessorsRef st' = audioProcessorsRef st"
  shows "attached c p stream st st''"
  using assms by (simp add: attached_def new_chain_def new_monitor_def)

text \<open>
  C9. The second effect walks the whole list. With a context and no exception: for a
  list of one participant who is registered and one who is not, both with a stream and in
  either order, the only change to graph and registry is the attachment of the new one;
  a participant without stream changes neither graph nor registry and only logs five
  messages; and after any list, the registered session identifiers are those registered
  before and those of the participants of the list that have a stream.
\<close>

theorem remote_notification_attaches_new_participants:
  assumes "audioContextRef st = Some c" and "\<forall>x s. \<not> throws x s"
  shows "(audioStream a = Some sa \<and> has (audioProcessorsRef st) (sessionId a)
          \<and> audioStream b = Some sb \<and> \<not> has (audioProcessorsRef st) (sessionId b) \<longrightarrow>
            attached c b sb st (remoteEffect throws [a, b] st)
            \<and> attached c b sb st (remoteEffect throws [b, a] st))
       \<and> (audioStream p = None \<longrightarrow>
            host (checkParticipant throws st p) = host st
            \<and> audioProcessorsRef (checkParticipant throws st p) = audioProcessorsRef st
            \<and> console (checkParticipant throws st p) =
                console st @ map ConsoleLog [Checking_participant (name p), Is_Speaking (isSpeaking p),
                  Audio_Level (audioLevel p), Published_Tracks (publishedTracks p),
                  No_audio_available_for (name p)])
       \<and> (has (audioProcessorsRef (remoteEffect throws ps st)) sid
            \<longleftrightarrow> has (audioProcessorsRef st) sid
                \<or> (\<exists>q\<in>set ps. audioStream q \<noteq> None \<and> sessionId q = sid))"
proof (intro conjI impI)
  assume h: "audioStream a = Some sa \<and> has (audioProcessorsRef st) (sessionId a)
          \<and> audioStream b = Some sb \<and> \<not> has (audioProcessorsRef st) (sessionId b)"
  from assms(2) have nb: "\<forall>s. \<not> throws sb s" by simp
  let ?sa = "checkParticipant throws st a"
  let ?sb = "checkParticipant throws st b"
  have ka: "host ?sa = host st" "audioProcessorsRef ?sa = audioProcessorsRef st"
    "audioContextRef ?sa = Some c"
    using h assms(1) by (simp_all add: checkParticipant_known [of a sa])
  have "attached c b sb ?sa (checkParticipant throws ?sa b)"
    using h ka nb by (intro checkParticipant_attached) simp_all
  then have "attached c b sb st (checkParticipant throws ?sa b)"
    using ka(1,2) by (rule attached_after_known)
  then show "attached c b sb st (remoteEffect throws [a, b] st)"
    by (simp add: remoteEffect_Cons remoteEffect_Nil)
  have ab: "attached c b sb st ?sb"
    using h assms(1) nb by (intro checkParticipant_attached) simp_all
  then have "has (audioProcessorsRef ?sb) (sessionId a)"
    using h by (simp add: attached_def has_append)
  with h have "host (checkParticipant throws ?sb a) = host ?sb"
    "audioProcessorsRef (checkParticipant throws ?sb a) = audioProcessorsRef ?sb"
    by (simp_all add: checkParticipant_known [of a sa])
  with ab have "attached c b sb st (checkParticipant throws ?sb a)"
    by (rule attached_known)
  then show "attached c b sb st (remoteEffect throws [b, a] st)"
    by (simp add: remoteEffect_Cons remoteEffect_Nil)
next
  assume n: "audioStream p = None"
  then show "host (checkParticipant throws st p) = host st"
    and "audioProcessorsRef (checkParticipant throws st p) = audioProcessorsRef st"
    and "console (checkParticipant throws st p) =
                console st @ map ConsoleLog [Checking_participant (name p), Is_Speaking (isSpeaking p),
                  Audio_Level (audioLevel p), Published_Tracks (publishedTracks p),
                  No_audio_available_for (name p)]"
    by (simp_all only: checkParticipant_silent)
next
  show "has (audioProcessorsRef (remoteEffect throws ps st)) sid
            \<longleftrightarrow> has (audioProcessorsRef st) sid
                \<or> (\<exists>q\<in>set ps. audioStream q \<noteq> None \<and> sessionId q = sid)"
    using assms by (rule remoteEffect_has)
qed

text \<open>Ann is attached; a notification with Ann and Bob attaches Bob only; Carol has no stream.\<close>

theorem remote_notification_attaches_new_participants_witness:
  "audioContextRef with_ann = Some 0
   \<and> audioProcessorsRef with_ann = [(''s1'', \<lparr>sourceNode = 0, processorNode = 2, analyserNode = 1\<rparr>)]
   \<and> audioProcessorsRef (remoteEffect (\<lambda>x. never) [ann, bob] with_ann) =
       [(''s1'', \<lparr>sourceNode = 0, processorNode = 2, analyserNode = 1\<rparr>),
        (''s2'', \<lparr>sourceNode = 3, processorNode = 5, analyserNode = 4\<rparr>)]
   \<and> attached 0 bob 8 with_ann (remoteEffect (\<lambda>x. never) [ann, bob] with_ann)
   \<and> length (nodes (host (remoteEffect (\<lambda>x. never) [ann, bob] with_ann))) = 6
   \<and> host (checkParticipant (\<lambda>x. never) with_ann carol) = host with_ann"
proof -
  have 1: "audioContextRef with_ann = Some 0" by (simp add: with_ann_def run_defs)
  have 2: "\<forall>x s. \<not> never s" by (simp add: never_def)
  have 3: "audioProcessorsRef with_ann = [(''s1'', \<lparr>sourceNode = 0, processorNode = 2, analyserNode = 1\<rparr>)]"
    by (simp add: with_ann_def run_defs)
  have 4: "audioStream ann = Some 7 \<and> has (audioProcessorsRef with_ann) (sessionId ann)
          \<and> audioStream bob = Some 8 \<and> \<not> has (audioProcessorsRef with_ann) (sessionId bob)"
    by (simp add: 3 has_def ann_def bob_def)
  have 5: "audioStream carol = None" by (simp add: carol_def)
  have 6: "length (nodes (host with_ann)) = 3" by (simp add: with_ann_def run_defs)
  note t = remote_notification_attaches_new_participants [OF 1 2, of ann 7 bob 8 carol]
  from t 4 have a: "attached 0 bob 8 with_ann (remoteEffect (\<lambda>x. never) [ann, bob] with_ann)"
    by blast
  from t 5 have c: "host (checkParticipant (\<lambda>x. never) with_ann carol) = host with_ann"
    by blast
  from a have r: "audioProcessorsRef (remoteEffect (\<lambda>x. never) [ann, bob] with_ann) =
       [(''s1'', \<lparr>sourceNode = 0, processorNode = 2, analyserNode = 1\<rparr>),
        (''s2'', \<lparr>sourceNode = 3, processorNode = 5, analyserNode = 4\<rparr>)]"
    by (simp add: attached_def 3 6 new_chain_def bob_def)
  from a have n: "length (nodes (host (remoteEffect (\<lambda>x. never) [ann, bob] with_ann))) = 6"
    by (simp add: attached_def 6)
  from 1 3 r a n c show ?thesis by simp
qed

subsection \<open>Attaching twice\<close>

text \<open>
  C1 as stated fails: \<^verbatim>\<open>processAudioStream\<close> does not look at the registry. Called a
  second time for the session \<open>s1\<close>, which is registered, it creates three more nodes,
  wires them and installs a second handler with a throttle state of its own; the
  registry entry of \<open>s1\<close> is overwritten with the second chain.
\<close>

theorem attach_twice_counterexample:
  "audioProcessorsRef attached_once = [(''s1'', \<lparr>sourceNode = 0, processorNode = 2, analyserNode = 1\<rparr>)]
   \<and> edges (host attached_once) = [(0, Node 1), (1, Node 2), (2, Destination 0)]
   \<and> audioProcessorsRef attached_twice = [(''s1'', \<lparr>sourceNode = 3, processorNode = 5, analyserNode = 4\<rparr>)]
   \<and> length (nodes (host attached_twice)) = 6
   \<and> edges (host attached_twice) =
        [(0, Node 1), (1, Node 2), (2, Destination 0), (3, Node 4), (4, Node 5), (5, Destination 0)]
   \<and> handlers (host attached_twice) 2 \<noteq> None
   \<and> handlers (host attached_twice) 5 \<noteq> None"
  by (simp add: attached_twice_def attached_once_def run_defs)

lemma twice_fields:
  assumes "audioContextRef st = Some c" and "\<forall>s. \<not> t1 s" and "\<forall>s. \<not> t2 s"
  shows "audioProcessorsRef (processAudioStream t2 s2 sid n2 l2 (processAudioStream t1 s1 sid n1 l1 st)) =
           AList.update sid (new_chain (host (processAudioStream t1 s1 sid n1 l1 st))) (audioProcessorsRef st)"
    and "length (nodes (host (processAudioStream t2 s2 sid n2 l2 (processAudioStream t1 s1 sid n1 l1 st)))) =
           length (nodes (host st)) + 6"
    and "length (edges (host (processAudioStream t2 s2 sid n2 l2 (processAudioStream t1 s1 sid n1 l1 st)))) =
           length (edges (host st)) + 6"
    and "handlers (host (processAudioStream t2 s2 sid n2 l2 (processAudioStream t1 s1 sid n1 l1 st))) =
           (handlers (host st))(length (nodes (host st)) + 2 \<mapsto> new_monitor (host st) sid n1 l1,
                                length (nodes (host st)) + 5 \<mapsto>
                                  new_monitor (host (processAudioStream t1 s1 sid n1 l1 st)) sid n2 l2)"
proof -
  let ?st1 = "processAudioStream t1 s1 sid n1 l1 st"
  note f1 = processAudioStream_ok_fields [OF assms(2,1), of s1 sid n1 l1]
  note f2 = processAudioStream_ok_fields [OF assms(3) f1(3), of s2 sid n2 l2]
  have five: "Suc (Suc (Suc (Suc (Suc k)))) = k + 5" for k by simp
  show "audioProcessorsRef (processAudioStream t2 s2 sid n2 l2 ?st1) =
           AList.update sid (new_chain (host ?st1)) (audioProcessorsRef st)"
    unfolding f2 by (simp add: f1)
  show "length (nodes (host (processAudioStream t2 s2 sid n2 l2 ?st1))) = length (nodes (host st)) + 6"
    unfolding f2 by (simp add: f1 wired_fields)
  show "length (edges (host (processAudioStream t2 s2 sid n2 l2 ?st1))) = length (edges (host st)) + 6"
    unfolding f2 by (simp add: f1 wired_fields)
  show "handlers (host (processAudioStream t2 s2 sid n2 l2 ?st1)) =
           (handlers (host st))(length (nodes (host st)) + 2 \<mapsto> new_monitor (host st) sid n1 l1,
                                length (nodes (host st)) + 5 \<mapsto> new_monitor (host ?st1) sid n2 l2)"
    unfolding f2 by (simp add: f1 wired_fields five)
qed

text \<open>
  C1, as the code has it. The test for the registry is in the second effect, the caller.
  A notification repeated after one in which nothing threw changes neither graph nor
  registry, and a participant found in the registry is never attached again.
  \<^verbatim>\<open>processAudioStream\<close> itself, called twice for one session identifier, leaves one
  registry entry for it, and two chains: six nodes, six connections and two handlers more.
\<close>

theorem attachment_guarded_by_remote_effect:
  assumes "audioContextRef st = Some c"
  shows "((\<forall>x s. \<not> throws x s) \<longrightarrow>
            host (remoteEffect again ps (remoteEffect throws ps st)) = host (remoteEffect throws ps st)
            \<and> audioProcessorsRef (remoteEffect again ps (remoteEffect throws ps st)) =
                audioProcessorsRef (remoteEffect throws ps st))
       \<and> (audioStream p = Some stream \<and> has (audioProcessorsRef st) (sessionId p) \<longrightarrow>
            host (checkParticipant throws st p) = host st
            \<and> audioProcessorsRef (checkParticipant throws st p) = audioProcessorsRef st)
       \<and> ((\<forall>s. \<not> t1 s) \<and> (\<forall>s. \<not> t2 s) \<and> distinct (map fst (audioProcessorsRef st)) \<longrightarrow>
            length (filter (\<lambda>e. fst e = sid)
              (audioProcessorsRef (processAudioStream t2 s2 sid n2 l2 (processAudioStream t1 s1 sid n1 l1 st)))) = 1
            \<and> length (nodes (host (processAudioStream t2 s2 sid n2 l2 (processAudioStream t1 s1 sid n1 l1 st)))) =
                length (nodes (host st)) + 6
            \<and> length (edges (host (processAudioStream t2 s2 sid n2 l2 (processAudioStream t1 s1 sid n1 l1 st)))) =
                length (edges (host st)) + 6
            \<and> handlers (host (processAudioStream t2 s2 sid n2 l2 (processAudioStream t1 s1 sid n1 l1 st)))
                (length (nodes (host st)) + 2) \<noteq> None
            \<and> handlers (host (processAudioStream t2 s2 sid n2 l2 (processAudioStream t1 s1 sid n1 l1 st)))
                (length (nodes (host st)) + 5) \<noteq> None)"
proof (intro conjI impI)
  assume nt: "\<forall>x s. \<not> throws x s"
  let ?st1 = "remoteEffect throws ps st"
  have "\<forall>q\<in>set ps. audioStream q \<noteq> None \<longrightarrow> has (audioProcessorsRef ?st1) (sessionId q)"
    using remoteEffect_has [OF assms nt, of ps] by blast
  then have k: "host (remoteEffect again ps ?st1) = host ?st1
         \<and> audioProcessorsRef (remoteEffect again ps ?st1) = audioProcessorsRef ?st1"
    by (rule remoteEffect_known)
  from k show "host (remoteEffect again ps ?st1) = host ?st1" by simp
  from k show "audioProcessorsRef (remoteEffect again ps ?st1) = audioProcessorsRef ?st1" by simp
next
  assume "audioStream p = Some stream \<and> has (audioProcessorsRef st) (sessionId p)"
  then show "host (checkParticipant throws st p) = host st"
    and "audioProcessorsRef (checkParticipant throws st p) = audioProcessorsRef st"
    by (simp_all add: checkParticipant_known [of p stream])
next
  assume a: "(\<forall>s. \<not> t1 s) \<and> (\<forall>s. \<not> t2 s) \<and> distinct (map fst (audioProcessorsRef st))"
  then have n1: "\<forall>s. \<not> t1 s" and n2: "\<forall>s. \<not> t2 s" and d: "distinct (map fst (audioProcessorsRef st))"
    by simp_all
  note t = twice_fields [OF assms n1 n2, of s2 sid n2 l2 s1 n1 l1]
  show "length (filter (\<lambda>e. fst e = sid)
              (audioProcessorsRef (processAudioStream t2 s2 sid n2 l2 (processAudioStream t1 s1 sid n1 l1 st)))) = 1"
    unfolding t(1) using d by (rule one_entry)
  show "length (nodes (host (processAudioStream t2 s2 sid n2 l2 (processAudioStream t1 s1 sid n1 l1 st)))) =
                length (nodes (host st)) + 6"
    by (rule t(2))
  show "length (edges (host (processAudioStream t2 s2 sid n2 l2 (processAudioStream t1 s1 sid n1 l1 st)))) =
                length (edges (host st)) + 6"
    by (rule t(3))
  show "handlers (host (processAudioStream t2 s2 sid n2 l2 (processAudioStream t1 s1 sid n1 l1 st)))
                (length (nodes (host st)) + 2) \<noteq> None"
    unfolding t(4) by simp
  show "handlers (host (processAudioStream t2 s2 sid n2 l2 (processAudioStream t1 s1 sid n1 l1 st)))
                (length (nodes (host st)) + 5) \<noteq> None"
    unfolding t(4) by simp
qed

text \<open>The notification with Ann and Bob, twice, on the mounted component.\<close>

theorem attachment_guarded_by_remote_effect_witness:
  "audioContextRef mounted_example = Some 0
   \<and> audioProcessorsRef (remoteEffect (\<lambda>x. never) [ann, bob] mounted_example) =
       [(''s1'', \<lparr>sourceNode = 0, processorNode = 2, analyserNode = 1\<rparr>),
        (''s2'', \<lparr>sourceNode = 3, processorNode = 5, analyserNode = 4\<rparr>)]
   \<and> audioProcessorsRef (remoteEffect (\<lambda>x. never) [ann, bob]
        (remoteEffect (\<lambda>x. never) [ann, bob] mounted_example)) =
       [(''s1'', \<lparr>sourceNode = 0, processorNode = 2, analyserNode = 1\<rparr>),
        (''s2'', \<lparr>sourceNode = 3, processorNode = 5, analyserNode = 4\<rparr>)]
   \<and> host (remoteEffect (\<lambda>x. never) [ann, bob] (remoteEffect (\<lambda>x. never) [ann, bob] mounted_example))
       = host (remoteEffect (\<lambda>x. never) [ann, bob] mounted_example)
   \<and> length (filter (\<lambda>e. fst e = ''s1'') (audioProcessorsRef attached_twice)) = 1"
proof -
  have 1: "audioContextRef mounted_example = Some 0" by (simp add: run_defs)
  have 2: "\<forall>x s. \<not> never s" by (simp add: never_def)
  have 3: "audioProcessorsRef (remoteEffect (\<lambda>x. never) [ann, bob] mounted_example) =
       [(''s1'', \<lparr>sourceNode = 0, processorNode = 2, analyserNode = 1\<rparr>),
        (''s2'', \<lparr>sourceNode = 3, processorNode = 5, analyserNode = 4\<rparr>)]"
    by (simp add: run_defs)
  have 4: "(\<forall>s. \<not> never s) \<and> (\<forall>s. \<not> never s) \<and> distinct (map fst (audioProcessorsRef mounted_example))"
    by (simp add: run_defs)
  note t = attachment_guarded_by_remote_effect [OF 1, of "\<lambda>x. never" "\<lambda>x. never" "[ann, bob]"
      ann 7 never never "''s1''" 7 "''Ann''" False 7 "''Ann''" False]
  from t 2 have a: "host (remoteEffect (\<lambda>x. never) [ann, bob] (remoteEffect (\<lambda>x. never) [ann, bob] mounted_example))
       = host (remoteEffect (\<lambda>x. never) [ann, bob] mounted_example)"
    and b: "audioProcessorsRef (remoteEffect (\<lambda>x. never) [ann, bob]
        (remoteEffect (\<lambda>x. never) [ann, bob] mounted_example)) =
        audioProcessorsRef (remoteEffect (\<lambda>x. never) [ann, bob] mounted_example)"
    by blast+
  from t 4 have c: "length (filter (\<lambda>e. fst e = ''s1'') (audioProcessorsRef attached_twice)) = 1"
    unfolding attached_twice_def attached_once_def by blast
  from 1 3 a b c show ?thesis by simp
qed

subsection \<open>The registry describes the graph; closed chains stay silent\<close>

lemma grows_refl: "grows h h"
  by (simp add: grows_def)

lemma grows_trans: "grows h h' \<Longrightarrow> grows h' h'' \<Longrightarrow> grows h h''"
  by (auto simp: grows_def)

lemma grows_owned: "grows h h' \<Longrightarrow> owned c h n \<Longrightarrow> owned c h' n"
  by (auto simp: grows_def owned_def nth_append)

lemma grows_chain_intact: "grows h h' \<Longrightarrow> chain_intact c h e \<Longrightarrow> chain_intact c h' e"
  by (auto simp: chain_intact_def grows_def owned_def nth_append)

lemma grows_dead: "grows h h' \<Longrightarrow> dead p h \<Longrightarrow> dead p h'"
  by (auto simp: grows_def dead_def nth_append)

lemma build_chain_grows: "grows h (fst (build_chain throws c stream h))"
  by (simp add: build_chain_def createNode_def connect_def Let_def grows_def)

lemma update_subset: "set (AList.update k v al) \<subseteq> insert (k, v) (set al)"
  by (induction al) auto

lemma chain_intact_nodes:
  "nodes h' = nodes h \<Longrightarrow> edges h' = edges h \<Longrightarrow> chain_intact c h' = chain_intact c h"
  by (rule ext) (simp add: chain_intact_def owned_def)

lemma processAudioStream_grows: "grows (host st) (host (processAudioStream throws stream sid nm loc st))"
proof (cases "audioContextRef st")
  case None
  then show ?thesis by (simp add: processAudioStream_def grows_refl)
next
  case (Some c)
  obtain h r where b: "build_chain throws c stream (host st) = (h, r)"
    by (cases "build_chain throws c stream (host st)")
  with build_chain_grows [of "host st" throws c stream] have "grows (host st) h" by simp
  with Some b show ?thesis
    by (cases r) (simp_all add: processAudioStream_def addDebugLog_fields grows_def)
qed

lemma processAudioStream_context:
  "audioContextRef (processAudioStream throws stream sid nm loc st) = audioContextRef st"
  by (simp add: processAudioStream_def addDebugLog_fields split: option.splits prod.splits sum.splits)

lemma processAudioStream_well_formed:
  assumes "well_formed st"
  shows "well_formed (processAudioStream throws stream sid nm loc st)"
proof -
  from assms obtain c where c: "audioContextRef st = Some c"
    and o: "c < length (contexts (host st))" "\<not> contexts (host st) ! c"
    and l: "list_all (chain_intact c (host st)) (audioProcessorsRef st)"
    and d: "distinct (map fst (audioProcessorsRef st))"
    by (auto simp: well_formed_def split: option.splits)
  let ?st' = "processAudioStream throws stream sid nm loc st"
  note g = processAudioStream_grows [of st throws stream sid nm loc]
  have ctx: "audioContextRef ?st' = Some c"
    by (simp add: processAudioStream_context c)
  have o': "c < length (contexts (host ?st'))" "\<not> contexts (host ?st') ! c"
    using g o by (simp_all add: grows_def)
  have l0: "list_all (chain_intact c (host ?st')) (audioProcessorsRef st)"
    using l g by (auto simp: list_all_iff intro: grows_chain_intact)
  show ?thesis
  proof (cases "\<exists>s. throws s")
    case True
    then obtain s where "throws s" ..
    then have "audioProcessorsRef ?st' = audioProcessorsRef st"
      by (rule processAudioStream_fail)
    with ctx o' l0 d show ?thesis by (simp add: well_formed_def)
  next
    case False
    then have nt: "\<forall>s. \<not> throws s" by simp
    note f = processAudioStream_ok_fields [OF nt c, of stream sid nm loc]
    have n: "chain_intact c (host ?st') (sid, new_chain (host st))"
      by (simp add: f chain_intact_def owned_def new_chain_def wired_fields nth_append
          is_source_def is_analyser_def is_processor_def)
    have "set (AList.update sid (new_chain (host st)) (audioProcessorsRef st))
            \<subseteq> insert (sid, new_chain (host st)) (set (audioProcessorsRef st))"
      by (rule update_subset)
    with l0 n have "list_all (chain_intact c (host ?st')) (audioProcessorsRef ?st')"
      unfolding f(2) by (auto simp: list_all_iff)
    moreover have "distinct (map fst (audioProcessorsRef ?st'))"
      unfolding f(2) using d by (rule distinct_update)
    ultimately show ?thesis using ctx o' by (simp add: well_formed_def)
  qed
qed

lemma addDebugLog_well_formed: "well_formed (addDebugLog msg st) = well_formed st"
  by (simp add: well_formed_def addDebugLog_fields split: option.splits)

lemma checkParticipant_well_formed:
  "well_formed st \<Longrightarrow> well_formed (checkParticipant throws st p)"
  by (simp add: checkParticipant_def Let_def addDebugLog_well_formed processAudioStream_well_formed
      split: option.splits)

lemma checkParticipant_grows: "grows (host st) (host (checkParticipant throws st p))"
proof -
  let ?st1 = "addDebugLog (Setting_up_audio_processing_for (name p))
     (addDebugLog (Published_Tracks (publishedTracks p))
                  (addDebugLog (Audio_Level (audioLevel p))
                    (addDebugLog (Is_Speaking (isSpeaking p))
                      (addDebugLog (Checking_participant (name p)) st))))"
  have "grows (host ?st1) (host (processAudioStream t s sid nm loc ?st1))" for t s sid nm loc
    by (rule processAudioStream_grows)
  then have "grows (host st) (host (processAudioStream t s sid nm loc ?st1))" for t s sid nm loc
    by (simp add: addDebugLog_fields)
  then show ?thesis
    by (simp add: checkParticipant_def Let_def addDebugLog_fields grows_refl split: option.splits)
qed

lemma remoteEffect_well_formed:
  "well_formed st \<Longrightarrow> well_formed (remoteEffect throws ps st)"
  by (induction ps arbitrary: st) (simp_all add: remoteEffect_Nil remoteEffect_Cons checkParticipant_well_formed)

lemma remoteEffect_grows: "grows (host st) (host (remoteEffect throws ps st))"
proof (induction ps arbitrary: st)
  case Nil
  show ?case by (simp add: remoteEffect_Nil grows_refl)
next
  case (Cons p ps)
  from checkParticipant_grows Cons [of "checkParticipant throws st p"]
  show ?case unfolding remoteEffect_Cons by (rule grows_trans)
qed

lemma audioprocess_fields:
  "nodes (host (audioprocess p dataArray now st)) = nodes (host st)"
  "edges (host (audioprocess p dataArray now st)) = edges (host st)"
  "contexts (host (audioprocess p dataArray now st)) = contexts (host st)"
  "audioProcessorsRef (audioprocess p dataArray now st) = audioProcessorsRef st"
  "audioContextRef (audioprocess p dataArray now st) = audioContextRef st"
  by (simp_all add: audioprocess_def Let_def split: option.splits prod.splits)

lemma audioprocess_well_formed:
  "well_formed st \<Longrightarrow> well_formed (audioprocess p dataArray now st)"
  by (simp add: well_formed_def audioprocess_fields chain_intact_nodes [of "host (audioprocess p dataArray now st)" "host st"]
      split: option.splits)

lemma setupEffect_well_formed:
  assumes "audioProcessorsRef st = []"
  shows "well_formed (setupEffect True throws localParticipant st)"
proof -
  let ?st1 = "addDebugLog AudioContext_created
     (st\<lparr>host := (host st)\<lparr>contexts := contexts (host st) @ [False]\<rparr>,
         audioContextRef := Some (length (contexts (host st)))\<rparr>)"
  have w1: "well_formed ?st1"
    using assms by (simp add: well_formed_def addDebugLog_fields)
  then have "well_formed (processAudioStream throws stream sid nm loc
      (addDebugLog Local_participant_audio_detected ?st1))" for stream sid nm loc
    by (intro processAudioStream_well_formed) (simp add: addDebugLog_well_formed)
  with w1 show ?thesis
    by (simp add: setupEffect_def newAudioContext_def Let_def split: option.splits)
qed

lemma react_well_formed: "well_formed st \<Longrightarrow> well_formed (react st ev)"
  by (cases ev)
    (simp_all add: remoteEffect_well_formed audioprocess_well_formed setupEffect_well_formed cleanup_fields)

text \<open>In every state of its life the component is well formed.\<close>

lemma lifecycle_well_formed: "well_formed (foldl react (mount clk throws localParticipant) evs)"
proof -
  have "well_formed st \<Longrightarrow> well_formed (foldl react st evs)" for st
    by (induction evs arbitrary: st) (simp_all add: react_well_formed)
  moreover have "well_formed (mount clk throws localParticipant)"
    unfolding mount_def by (rule setupEffect_well_formed) (simp add: initial_def)
  ultimately show ?thesis .
qed

lemma closed_stays: "j < length xs \<Longrightarrow> xs ! j \<Longrightarrow> (xs[i := True]) ! j"
  by (cases "i = j") simp_all

lemma cleanup_dead: "dead p (host st) \<Longrightarrow> dead p (host (cleanup st))"
  by (auto simp: dead_def cleanup_fields closed_stays split: option.splits)

lemma setupEffect_dead:
  assumes "dead p (host st)"
  shows "dead p (host (setupEffect w throws localParticipant st))"
proof (cases w)
  case False
  with assms show ?thesis by (simp add: setupEffect_def)
next
  case True
  let ?st1 = "addDebugLog AudioContext_created
     (st\<lparr>host := (host st)\<lparr>contexts := contexts (host st) @ [False]\<rparr>,
         audioContextRef := Some (length (contexts (host st)))\<rparr>)"
  have d1: "dead p (host ?st1)"
    using assms by (auto simp: dead_def addDebugLog_fields nth_append)
  let ?st2 = "addDebugLog Local_participant_audio_detected ?st1"
  have d2: "dead p (host ?st2)"
    using d1 by (simp add: addDebugLog_fields)
  have "dead p (host (processAudioStream throws stream sid nm loc ?st2))" for stream sid nm loc
    using processAudioStream_grows d2 by (rule grows_dead)
  with d1 True show ?thesis
    by (simp add: setupEffect_def newAudioContext_def Let_def split: option.splits)
qed

lemma react_dead: "dead p (host st) \<Longrightarrow> dead p (host (react st ev))"
proof (cases ev)
  case (RemoteParticipantsChanged throws ps)
  assume "dead p (host st)"
  with remoteEffect_grows [of st throws ps] RemoteParticipantsChanged show ?thesis
    by (auto intro: grows_dead)
next
  case (AudioProcessEvent q dataArray now)
  assume "dead p (host st)"
  with AudioProcessEvent show ?thesis by (simp add: dead_def audioprocess_fields)
next
  case (LocalParticipantChanged throws lp)
  assume "dead p (host st)"
  with LocalParticipantChanged show ?thesis by (simp add: setupEffect_dead cleanup_dead)
qed

lemma foldl_react_dead: "dead p (host st) \<Longrightarrow> dead p (host (foldl react st evs))"
  by (induction evs arbitrary: st) (simp_all add: react_dead)

lemma audioprocess_dead: "dead p (host st) \<Longrightarrow> audioprocess p dataArray now st = st"
  by (rule audioprocess_closed) (simp add: dead_def)

lemma cleanup_kills:
  assumes "well_formed st" and "entry \<in> set (audioProcessorsRef st)"
  shows "dead (processorNode (snd entry)) (host (cleanup st))"
proof -
  from assms(1) obtain c where c: "audioContextRef st = Some c"
    and o: "c < length (contexts (host st))"
    and l: "list_all (chain_intact c (host st)) (audioProcessorsRef st)"
    by (auto simp: well_formed_def split: option.splits)
  from l assms(2) have "owned c (host st) (processorNode (snd entry))"
    by (auto simp: list_all_iff chain_intact_def)
  with c o show ?thesis
    by (simp add: dead_def owned_def cleanup_fields)
qed

lemma cleanup_keeps_analyser:
  assumes "well_formed st" and "entry \<in> set (audioProcessorsRef st)"
  shows "(analyserNode (snd entry), Node (processorNode (snd entry))) \<in> set (edges (host (cleanup st)))"
proof -
  from assms(1) obtain c where l: "list_all (chain_intact c (host st)) (audioProcessorsRef st)"
    by (auto simp: well_formed_def split: option.splits)
  from l assms(2) have e: "chain_intact c (host st) entry"
    by (simp add: list_all_iff)
  have "analyserNode (snd entry) \<noteq> sourceNode (snd other)
        \<and> analyserNode (snd entry) \<noteq> processorNode (snd other)"
    if "other \<in> set (audioProcessorsRef st)" for other
  proof -
    from l that have "chain_intact c (host st) other" by (simp add: list_all_iff)
    with e show ?thesis
      by (auto simp: chain_intact_def is_source_def is_analyser_def is_processor_def
          split: node_kind.splits)
  qed
  then have "analyserNode (snd entry) \<notin> sourceNode ` snd ` set (audioProcessorsRef st)
      \<and> analyserNode (snd entry) \<notin> processorNode ` snd ` set (audioProcessorsRef st)"
    by auto
  with e show ?thesis by (simp add: cleanup_fields chain_intact_def)
qed

lemma cleanup_disconnects:
  assumes "entry \<in> set (audioProcessorsRef st)"
  shows "(sourceNode (snd entry), e) \<notin> set (edges (host (cleanup st)))"
    and "(processorNode (snd entry), e) \<notin> set (edges (host (cleanup st)))"
  using assms by (auto simp: cleanup_fields)

text \<open>
  C8. After \<open>cleanup\<close> the registry is empty, and the connections removed are exactly
  those that leave the source node or the processor node of a registered chain. In every
  state the component reaches in its life, for every registered chain: its source and
  its processor have no outgoing connection left, its analyser is still connected to its
  processor, and an \<^verbatim>\<open>audioprocess\<close> event for it changes nothing, neither right after
  the teardown nor at any time after the component has been set up again.
\<close>

theorem teardown_empties_registry_and_stops_chains:
  "audioProcessorsRef (cleanup st) = []
   \<and> edges (host (cleanup st)) =
       filter (\<lambda>(a, b). a \<notin> sourceNode ` snd ` set (audioProcessorsRef st)
                       \<and> a \<notin> processorNode ` snd ` set (audioProcessorsRef st)) (edges (host st))
   \<and> (st = foldl react (mount clk throws localParticipant) evs
        \<and> (sid, ch) \<in> set (audioProcessorsRef st) \<longrightarrow>
          (sourceNode ch, e) \<notin> set (edges (host (cleanup st)))
          \<and> (processorNode ch, e) \<notin> set (edges (host (cleanup st)))
          \<and> (analyserNode ch, Node (processorNode ch)) \<in> set (edges (host (cleanup st)))
          \<and> audioprocess (processorNode ch) dataArray now (cleanup st) = cleanup st
          \<and> audioprocess (processorNode ch) dataArray now
                (foldl react (setupEffect True throws' localParticipant' (cleanup st)) later)
              = foldl react (setupEffect True throws' localParticipant' (cleanup st)) later)"
proof (intro conjI impI)
  show "audioProcessorsRef (cleanup st) = []" by (simp add: cleanup_fields)
  show "edges (host (cleanup st)) =
       filter (\<lambda>(a, b). a \<notin> sourceNode ` snd ` set (audioProcessorsRef st)
                       \<and> a \<notin> processorNode ` snd ` set (audioProcessorsRef st)) (edges (host st))"
    by (simp add: cleanup_fields)
next
  assume a: "st = foldl react (mount clk throws localParticipant) evs
        \<and> (sid, ch) \<in> set (audioProcessorsRef st)"
  have "well_formed (foldl react (mount clk throws localParticipant) evs)"
    by (rule lifecycle_well_formed)
  with a have w: "well_formed st" by blast
  from a have m: "(sid, ch) \<in> set (audioProcessorsRef st)" by blast
  from cleanup_disconnects [OF m] show "(sourceNode ch, e) \<notin> set (edges (host (cleanup st)))"
    and "(processorNode ch, e) \<notin> set (edges (host (cleanup st)))"
    by simp_all
  from cleanup_keeps_analyser [OF w m]
  show "(analyserNode ch, Node (processorNode ch)) \<in> set (edges (host (cleanup st)))" by simp
  from cleanup_kills [OF w m] have d: "dead (processorNode ch) (host (cleanup st))" by simp
  then show "audioprocess (processorNode ch) dataArray now (cleanup st) = cleanup st"
    by (rule audioprocess_dead)
  from d have "dead (processorNode ch)
      (host (foldl react (setupEffect True throws' localParticipant' (cleanup st)) later))"
    by (intro foldl_react_dead setupEffect_dead)
  then show "audioprocess (processorNode ch) dataArray now
                (foldl react (setupEffect True throws' localParticipant' (cleanup st)) later)
              = foldl react (setupEffect True throws' localParticipant' (cleanup st)) later"
    by (rule audioprocess_dead)
qed

text \<open>
  Ann's chain: before the teardown a loud buffer is logged; after it nothing is, the
  connection from analyser 1 to processor 2 is the one that remains.
\<close>

theorem teardown_empties_registry_and_stops_chains_witness:
  "audioProcessorsRef with_ann = [(''s1'', \<lparr>sourceNode = 0, processorNode = 2, analyserNode = 1\<rparr>)]
   \<and> edges (host with_ann) = [(0, Node 1), (1, Node 2), (2, Destination 0)]
   \<and> length (console (audioprocess 2 [1] 1000000 with_ann)) = length (console with_ann) + 1
   \<and> audioProcessorsRef (cleanup with_ann) = []
   \<and> edges (host (cleanup with_ann)) = [(1, Node 2)]
   \<and> audioprocess 2 [1] 1000000 (cleanup with_ann) = cleanup with_ann
   \<and> audioprocess 2 [1] 1000000
        (foldl react (setupEffect True never None (cleanup with_ann))
           [RemoteParticipantsChanged (\<lambda>x. never) [ann, bob]])
       = foldl react (setupEffect True never None (cleanup with_ann))
           [RemoteParticipantsChanged (\<lambda>x. never) [ann, bob]]"
proof -
  have 1: "audioProcessorsRef with_ann = [(''s1'', \<lparr>sourceNode = 0, processorNode = 2, analyserNode = 1\<rparr>)]"
    by (simp add: with_ann_def run_defs)
  have 2: "edges (host with_ann) = [(0, Node 1), (1, Node 2), (2, Destination 0)]"
    by (simp add: with_ann_def run_defs)
  have 3: "length (console (audioprocess 2 [1] 1000000 with_ann)) = length (console with_ann) + 1"
    by (simp add: with_ann_def run_defs audioprocess_def onaudioprocess_def rms64_one
        above_threshold_def literal_hundredth LOG_INTERVAL_def)
  have 4: "with_ann = foldl react (mount (\<lambda>k. ''12:00:00'') never None)
                      [RemoteParticipantsChanged (\<lambda>x. never) [ann]]
      \<and> (''s1'', \<lparr>sourceNode = 0, processorNode = 2, analyserNode = 1\<rparr>) \<in> set (audioProcessorsRef with_ann)"
    unfolding 1 by (simp add: with_ann_def mounted_example_def mount_def)
  note t = teardown_empties_registry_and_stops_chains [of with_ann "\<lambda>k. ''12:00:00''" never None
      "[RemoteParticipantsChanged (\<lambda>x. never) [ann]]" "''s1''"
      "\<lparr>sourceNode = 0, processorNode = 2, analyserNode = 1\<rparr>" "Node 1" "[1]" 1000000 never None
      "[RemoteParticipantsChanged (\<lambda>x. never) [ann, bob]]"]
  from t have a: "audioProcessorsRef (cleanup with_ann) = []" by blast
  from t have "edges (host (cleanup with_ann)) =
       filter (\<lambda>(a, b). a \<notin> sourceNode ` snd ` set (audioProcessorsRef with_ann)
                       \<and> a \<notin> processorNode ` snd ` set (audioProcessorsRef with_ann)) (edges (host with_ann))"
    by blast
  then have b: "edges (host (cleanup with_ann)) = [(1, Node 2)]"
    by (simp add: 1 2)
  from t 4 have c: "audioprocess 2 [1] 1000000 (cleanup with_ann) = cleanup with_ann"
    and d: "audioprocess 2 [1] 1000000
        (foldl react (setupEffect True never None (cleanup with_ann))
           [RemoteParticipantsChanged (\<lambda>x. never) [ann, bob]])
       = foldl react (setupEffect True never None (cleanup with_ann))
           [RemoteParticipantsChanged (\<lambda>x. never) [ann, bob]]"
    by simp_all
  from 1 2 3 a b c d show ?thesis by simp
qed

end
